theory Spec2Isabelle
  imports Main "HOL-Library.Word"
begin

unbundle bit_operations_syntax

section \<open>Go values as the package sees them through reflection\<close>

text \<open>
  The package \<open>wire\<close> walks a Go value with \<open>reflect\<close> and hands every leaf to one of three
  visitors (\<open>sizeofVisitor\<close>, \<open>encodeVisitor\<close>, \<open>decodeVisitor\<close>).  This section fixes the part
  of \<open>reflect\<close>, \<open>encoding/binary\<close> and \<open>io\<close> that \<open>visitor.go\<close> and \<open>wire.go\<close> call.

  Conventions of the embedding:
  \<^item> a fixed-width integer is a word of that width; \<open>int\<close>, \<open>uint\<close> and \<open>uintptr\<close> are 64 bits wide;
  \<^item> a float is the bit pattern that \<open>math.Float32bits\<close> / \<open>math.Float64bits\<close> returns for it;
  \<^item> a string is its byte sequence;
  \<^item> a slice carries, next to its elements, the zero value of its element type: this is
    what \<open>reflect.MakeSlice\<close> fills a new slice with; a nil slice is an empty one;
  \<^item> a struct is the list of its fields in declaration order, each with its name, the value
    of the key \<open>wire\<close> of its tag, and its current value; all fields are exported and none
    is embedded;
  \<^item> a pointer owns what it points to (\<open>None\<close> is the nil pointer);
  \<^item> values of the kinds that the package never looks into (chan, func, interface, map,
    unsafe pointer, the invalid zero \<open>reflect.Value\<close>) are \<open>VOpaque\<close> with their kind and
    their \<open>Len()\<close>;
  \<^item> memory does not run out: \<open>make\<close> and \<open>reflect.MakeSlice\<close> succeed for every length
    that is not negative.
\<close>

type_synonym byte = "8 word"

datatype kind =
    KInvalid | KBool
  | KInt | KInt8 | KInt16 | KInt32 | KInt64
  | KUint | KUint8 | KUint16 | KUint32 | KUint64 | KUintptr
  | KFloat32 | KFloat64 | KComplex64 | KComplex128
  | KArray | KChan | KFunc | KInterface | KMap | KPtr | KSlice | KString | KStruct
  | KUnsafePointer

text \<open>\<open>reflect.Kind.String\<close>.\<close>

fun Kind_String :: "kind \<Rightarrow> string" where
  "Kind_String KInvalid = ''invalid''"
| "Kind_String KBool = ''bool''"
| "Kind_String KInt = ''int''"
| "Kind_String KInt8 = ''int8''"
| "Kind_String KInt16 = ''int16''"
| "Kind_String KInt32 = ''int32''"
| "Kind_String KInt64 = ''int64''"
| "Kind_String KUint = ''uint''"
| "Kind_String KUint8 = ''uint8''"
| "Kind_String KUint16 = ''uint16''"
| "Kind_String KUint32 = ''uint32''"
| "Kind_String KUint64 = ''uint64''"
| "Kind_String KUintptr = ''uintptr''"
| "Kind_String KFloat32 = ''float32''"
| "Kind_String KFloat64 = ''float64''"
| "Kind_String KComplex64 = ''complex64''"
| "Kind_String KComplex128 = ''complex128''"
| "Kind_String KArray = ''array''"
| "Kind_String KChan = ''chan''"
| "Kind_String KFunc = ''func''"
| "Kind_String KInterface = ''interface''"
| "Kind_String KMap = ''map''"
| "Kind_String KPtr = ''ptr''"
| "Kind_String KSlice = ''slice''"
| "Kind_String KString = ''string''"
| "Kind_String KStruct = ''struct''"
| "Kind_String KUnsafePointer = ''unsafe.Pointer''"

datatype val =
    VBool bool
  | VInt "64 word" | VInt8 "8 word" | VInt16 "16 word" | VInt32 "32 word" | VInt64 "64 word"
  | VUint "64 word" | VUint8 "8 word" | VUint16 "16 word" | VUint32 "32 word"
  | VUint64 "64 word" | VUintptr "64 word"
  | VFloat32 "32 word" | VFloat64 "64 word"
  | VComplex64 "32 word" "32 word" | VComplex128 "64 word" "64 word"
  | VArray "val list"
  | VSlice val "val list"
  | VString "byte list"
  | VStruct "(string \<times> string \<times> val) list"
  | VPtr "val option"
  | VOpaque kind nat

type_synonym field = "string \<times> string \<times> val"

text \<open>\<open>reflect.Value.Kind\<close>.\<close>

fun Kind :: "val \<Rightarrow> kind" where
  "Kind (VBool _) = KBool"
| "Kind (VInt _) = KInt"
| "Kind (VInt8 _) = KInt8"
| "Kind (VInt16 _) = KInt16"
| "Kind (VInt32 _) = KInt32"
| "Kind (VInt64 _) = KInt64"
| "Kind (VUint _) = KUint"
| "Kind (VUint8 _) = KUint8"
| "Kind (VUint16 _) = KUint16"
| "Kind (VUint32 _) = KUint32"
| "Kind (VUint64 _) = KUint64"
| "Kind (VUintptr _) = KUintptr"
| "Kind (VFloat32 _) = KFloat32"
| "Kind (VFloat64 _) = KFloat64"
| "Kind (VComplex64 _ _) = KComplex64"
| "Kind (VComplex128 _ _) = KComplex128"
| "Kind (VArray _) = KArray"
| "Kind (VSlice _ _) = KSlice"
| "Kind (VString _) = KString"
| "Kind (VStruct _) = KStruct"
| "Kind (VPtr _) = KPtr"
| "Kind (VOpaque k _) = k"

subsection \<open>Failures: returned errors and panics\<close>

text \<open>
  An error of the package is made by \<open>errors.New\<close> from a message; the byte source adds
  \<open>io.EOF\<close>, and a byte sink may report any error of its own.  A panic is not an error
  return: it unwinds through the caller of \<open>Encode\<close> / \<open>Decode\<close>.
\<close>

datatype error = New string | EOF | ErrClosedPipe | ErrShortWrite

datatype panic =
    NilPointerDereference
  | ValueError string kind
  | NotAssignable
  | NegativeLen

datatype failure = Err error | Panic panic

definition unsupported :: "kind \<Rightarrow> failure" where
  "unsupported k = Err (New (''wire: unsupported type: '' @ Kind_String k))"

definition no_size_source :: failure where
  "no_size_source = Err (New ''wire: slice with no size source'')"

subsection \<open>The calls into \<open>reflect\<close>\<close>

text \<open>\<open>Value.Elem\<close> on a pointer, as the first statement of \<open>runVisitorInternal\<close> uses it.\<close>

fun Elem :: "val option \<Rightarrow> val" where
  "Elem None = VOpaque KInvalid 0"
| "Elem (Some v) = v"

fun deref :: "val \<Rightarrow> val" where
  "deref (VPtr p) = Elem p"
| "deref v = v"

text \<open>\<open>Value.Len\<close>: panics unless the kind is array, chan, map, slice or string.\<close>

fun Len :: "val \<Rightarrow> panic + nat" where
  "Len (VArray es) = Inr (length es)"
| "Len (VSlice z es) = Inr (length es)"
| "Len (VString s) = Inr (length s)"
| "Len (VOpaque k l) =
     (if k = KChan \<or> k = KMap then Inr l else Inl (ValueError ''reflect.Value.Len'' k))"
| "Len v = Inl (ValueError ''reflect.Value.Len'' (Kind v))"

text \<open>\<open>Value.Uint\<close>: panics unless the kind is one of the unsigned integer kinds.\<close>

fun Uint :: "val \<Rightarrow> panic + 64 word" where
  "Uint (VUint x) = Inr x"
| "Uint (VUint8 x) = Inr (ucast x)"
| "Uint (VUint16 x) = Inr (ucast x)"
| "Uint (VUint32 x) = Inr (ucast x)"
| "Uint (VUint64 x) = Inr x"
| "Uint (VUintptr x) = Inr x"
| "Uint v = Inl (ValueError ''reflect.Value.Uint'' (Kind v))"

text \<open>
  \<open>Value.SetInt\<close>, \<open>Value.SetUint\<close>, \<open>Value.SetString\<close> and \<open>Value.Set\<close> first check that the value
  is assignable (the flag \<open>a\<close>: it was reached through a pointer or a slice), then store,
  truncating to the width of the kind.
\<close>

fun SetInt :: "bool \<Rightarrow> val \<Rightarrow> 64 word \<Rightarrow> panic + val" where
  "SetInt False v x = Inl NotAssignable"
| "SetInt True (VInt _) x = Inr (VInt x)"
| "SetInt True (VInt8 _) x = Inr (VInt8 (ucast x))"
| "SetInt True (VInt16 _) x = Inr (VInt16 (ucast x))"
| "SetInt True (VInt32 _) x = Inr (VInt32 (ucast x))"
| "SetInt True (VInt64 _) x = Inr (VInt64 x)"
| "SetInt True v x = Inl (ValueError ''reflect.Value.SetInt'' (Kind v))"

fun SetUint :: "bool \<Rightarrow> val \<Rightarrow> 64 word \<Rightarrow> panic + val" where
  "SetUint False v x = Inl NotAssignable"
| "SetUint True (VUint _) x = Inr (VUint x)"
| "SetUint True (VUint8 _) x = Inr (VUint8 (ucast x))"
| "SetUint True (VUint16 _) x = Inr (VUint16 (ucast x))"
| "SetUint True (VUint32 _) x = Inr (VUint32 (ucast x))"
| "SetUint True (VUint64 _) x = Inr (VUint64 x)"
| "SetUint True (VUintptr _) x = Inr (VUintptr x)"
| "SetUint True v x = Inl (ValueError ''reflect.Value.SetUint'' (Kind v))"

fun SetString :: "bool \<Rightarrow> val \<Rightarrow> byte list \<Rightarrow> panic + val" where
  "SetString False v s = Inl NotAssignable"
| "SetString True (VString _) s = Inr (VString s)"
| "SetString True v s = Inl (ValueError ''reflect.Value.SetString'' (Kind v))"

text \<open>\<open>Value.FieldByName\<close>: the field of that name, or the invalid \<open>Value\<close> (\<open>None\<close>).\<close>

fun FieldByName :: "field list \<Rightarrow> string \<Rightarrow> val option" where
  "FieldByName [] x = None"
| "FieldByName ((name, tag, v) # fs) x = (if name = x then Some v else FieldByName fs x)"

subsection \<open>The calls into \<open>encoding/binary\<close>\<close>

datatype ByteOrder = LittleEndian | BigEndian

definition PutUint16 :: "ByteOrder \<Rightarrow> 16 word \<Rightarrow> byte list" where
  "PutUint16 order v =
     (case order of
        LittleEndian \<Rightarrow> [ucast v, ucast (drop_bit 8 v)]
      | BigEndian \<Rightarrow> [ucast (drop_bit 8 v), ucast v])"

definition PutUint32 :: "ByteOrder \<Rightarrow> 32 word \<Rightarrow> byte list" where
  "PutUint32 order v =
     (case order of
        LittleEndian \<Rightarrow>
          [ucast v, ucast (drop_bit 8 v), ucast (drop_bit 16 v), ucast (drop_bit 24 v)]
      | BigEndian \<Rightarrow>
          [ucast (drop_bit 24 v), ucast (drop_bit 16 v), ucast (drop_bit 8 v), ucast v])"

definition PutUint64 :: "ByteOrder \<Rightarrow> 64 word \<Rightarrow> byte list" where
  "PutUint64 order v =
     (case order of
        LittleEndian \<Rightarrow>
          [ucast v, ucast (drop_bit 8 v), ucast (drop_bit 16 v), ucast (drop_bit 24 v),
           ucast (drop_bit 32 v), ucast (drop_bit 40 v), ucast (drop_bit 48 v),
           ucast (drop_bit 56 v)]
      | BigEndian \<Rightarrow>
          [ucast (drop_bit 56 v), ucast (drop_bit 48 v), ucast (drop_bit 40 v),
           ucast (drop_bit 32 v), ucast (drop_bit 24 v), ucast (drop_bit 16 v),
           ucast (drop_bit 8 v), ucast v])"

text \<open>The readers index a buffer of exactly the width they read.\<close>

definition le16 :: "byte list \<Rightarrow> 16 word" where
  "le16 b = ucast (b ! 0) OR push_bit 8 (ucast (b ! 1))"

definition le32 :: "byte list \<Rightarrow> 32 word" where
  "le32 b = ucast (b ! 0) OR push_bit 8 (ucast (b ! 1)) OR push_bit 16 (ucast (b ! 2))
     OR push_bit 24 (ucast (b ! 3))"

definition le64 :: "byte list \<Rightarrow> 64 word" where
  "le64 b = ucast (b ! 0) OR push_bit 8 (ucast (b ! 1)) OR push_bit 16 (ucast (b ! 2))
     OR push_bit 24 (ucast (b ! 3)) OR push_bit 32 (ucast (b ! 4)) OR push_bit 40 (ucast (b ! 5))
     OR push_bit 48 (ucast (b ! 6)) OR push_bit 56 (ucast (b ! 7))"

definition Uint16 :: "ByteOrder \<Rightarrow> byte list \<Rightarrow> 16 word" where
  "Uint16 order b = (case order of LittleEndian \<Rightarrow> le16 b | BigEndian \<Rightarrow> le16 (rev b))"

definition Uint32 :: "ByteOrder \<Rightarrow> byte list \<Rightarrow> 32 word" where
  "Uint32 order b = (case order of LittleEndian \<Rightarrow> le32 b | BigEndian \<Rightarrow> le32 (rev b))"

definition Uint64 :: "ByteOrder \<Rightarrow> byte list \<Rightarrow> 64 word" where
  "Uint64 order b = (case order of LittleEndian \<Rightarrow> le64 b | BigEndian \<Rightarrow> le64 (rev b))"

section \<open>\<open>visitor.go\<close>: nodes and struct tags\<close>

text \<open>
  The \<open>node\<close> of the source holds \<open>val\<close>, \<open>sizeof\<close>, \<open>sizeFrom\<close>, \<open>sizeFroms\<close>, \<open>endianness\<close> and
  \<open>nullTerminated\<close>.  Here \<open>val\<close> travels next to the record (the traversal recurses on it),
  and \<open>sizeFroms\<close>, which only a struct node fills, is threaded through the loop over the
  fields of that struct.  \<open>sizeof\<close> and \<open>sizeFrom\<close> are references into the parent struct in
  the source; both are read only while the node is visited, before the visit stores
  anything, so the record holds what they refer to at that moment:
  \<^item> \<open>n_sizeof\<close>: the parent's field named by \<open>sizeof=\<close>, \<open>None\<close> for the invalid \<open>Value\<close>;
  \<^item> \<open>n_sizeFrom\<close>: \<open>val\<close> of the node registered for this field's name, \<open>None\<close> for nil.
\<close>

record node =
  n_sizeof :: "val option"
  n_sizeFrom :: "val option"
  n_endianness :: "ByteOrder option"
  n_nullTerminated :: bool

text \<open>A node made with neither parent nor field: \<open>runVisitor\<close>.\<close>

definition root_node :: node where
  "root_node = \<lparr>n_sizeof = None, n_sizeFrom = None, n_endianness = None,
     n_nullTerminated = False\<rparr>"

text \<open>
  \<open>tagRegexp.FindAllStringSubmatch(tag, -1)\<close> for the expression
  \<open>big|little|nullterm|(sizeof)=(\w+)\<close>: the matches from left to right, without overlap.
  A match is kept as the directive it stands for; \<open>\w\<close> is an ASCII letter, digit or
  underscore, and \<open>\w+\<close> takes as many as there are.
\<close>

datatype directive = DBig | DLittle | DNullterm | DSizeof string

definition isWord :: "char \<Rightarrow> bool" where
  "isWord c = (let k = (of_char c :: nat) in
     (48 \<le> k \<and> k \<le> 57) \<or> (65 \<le> k \<and> k \<le> 90) \<or> k = 95 \<or> (97 \<le> k \<and> k \<le> 122))"

definition hasPrefix :: "string \<Rightarrow> string \<Rightarrow> bool" where
  "hasPrefix s p = (take (length p) s = p)"

function FindAll :: "string \<Rightarrow> directive list" where
  "FindAll [] = []"
| "FindAll (c # cs) =
     (if hasPrefix (c # cs) ''big'' then DBig # FindAll (drop 2 cs)
      else if hasPrefix (c # cs) ''little'' then DLittle # FindAll (drop 5 cs)
      else if hasPrefix (c # cs) ''nullterm'' then DNullterm # FindAll (drop 7 cs)
      else if hasPrefix (c # cs) ''sizeof='' \<and> takeWhile isWord (drop 6 cs) \<noteq> []
        then DSizeof (takeWhile isWord (drop 6 cs)) # FindAll (dropWhile isWord (drop 6 cs))
      else FindAll cs)"
  by pat_completeness auto
termination
proof (relation "measure length")
  fix c :: char and cs :: string
  have "length (dropWhile isWord (drop 6 cs)) \<le> length (drop 6 cs)"
    by (rule length_dropWhile_le)
  then show "(dropWhile isWord (drop 6 cs), c # cs) \<in> measure length"
    by simp
qed simp_all

text \<open>
  The loop over the matches in \<open>runVisitorInternal\<close>.  \<open>pfs\<close> is \<open>p.val\<close>, the fields of the
  parent as they are now; \<open>i\<close> is the index of the field the node is made for, which stands
  for the pointer to the node in \<open>p.sizeFroms\<close>.
\<close>

type_synonym sizeFroms = "string \<rightharpoonup> nat"

fun apply_directive :: "field list \<Rightarrow> nat \<Rightarrow> node \<times> sizeFroms \<Rightarrow> directive \<Rightarrow> node \<times> sizeFroms" where
  "apply_directive pfs i (n, sf) DBig = (n\<lparr>n_endianness := Some BigEndian\<rparr>, sf)"
| "apply_directive pfs i (n, sf) DLittle = (n\<lparr>n_endianness := Some LittleEndian\<rparr>, sf)"
| "apply_directive pfs i (n, sf) DNullterm = (n\<lparr>n_nullTerminated := True\<rparr>, sf)"
| "apply_directive pfs i (n, sf) (DSizeof x) = (n\<lparr>n_sizeof := FieldByName pfs x\<rparr>, sf(x \<mapsto> i))"

text \<open>\<open>n.sizeFrom.val\<close> for the node registered at index \<open>j\<close>: that field, behind its pointer.\<close>

definition node_val :: "field list \<Rightarrow> nat \<Rightarrow> val option" where
  "node_val pfs j = (if j < length pfs then Some (deref (snd (snd (pfs ! j)))) else None)"

text \<open>
  The node of the field at index \<open>i\<close> of a struct, and the parent's \<open>sizeFroms\<close> afterwards:
  the statements of \<open>runVisitorInternal\<close> between the pointer step and the switch.
\<close>

definition field_node :: "field list \<Rightarrow> sizeFroms \<Rightarrow> nat \<Rightarrow> string \<Rightarrow> string \<Rightarrow> node \<times> sizeFroms" where
  "field_node pfs sf i name tag =
     foldl (apply_directive pfs i)
       (root_node\<lparr>n_sizeFrom := (case sf name of None \<Rightarrow> None | Some j \<Rightarrow> node_val pfs j)\<rparr>, sf)
       (FindAll tag)"

section \<open>\<open>wire.go\<close>: the encoder\<close>

text \<open>
  The byte sink is an \<open>io.Writer\<close>: any state \<open>'w\<close> with a \<open>Write\<close> method, which returns the
  state afterwards and the error it reports, if any.
\<close>

type_synonym 'w Writer = "'w \<Rightarrow> byte list \<Rightarrow> 'w \<times> error option"

text \<open>
  Every write of \<open>encodeVisitor.visit\<close> is an expression statement
  (\<open>v.writer.Write(dw[:])\<close>, \<open>io.WriteString(v.writer, ...)\<close>): its results are not looked at.
\<close>

definition Write :: "'w Writer \<Rightarrow> byte list \<Rightarrow> 'w \<Rightarrow> 'w" where
  "Write wr b w = fst (wr w b)"

definition resolve_order :: "ByteOrder \<Rightarrow> node \<Rightarrow> ByteOrder" where
  "resolve_order vorder n = (case n_endianness n of None \<Rightarrow> vorder | Some e \<Rightarrow> e)"

text \<open>
  The first switch of \<open>encodeVisitor.visit\<close>, under \<open>n.sizeof.IsValid()\<close>: its cases are
  \<open>Int8, Int32, Int64\<close> and \<open>Uint8, Uint32, Uint64\<close>; \<open>n.sizeof.Len()\<close> is evaluated only there.
\<close>

definition set_sizeof :: "bool \<Rightarrow> node \<Rightarrow> val \<Rightarrow> panic + val" where
  "set_sizeof a n v =
     (case n_sizeof n of
        None \<Rightarrow> Inr v
      | Some t \<Rightarrow>
          if Kind v = KInt8 \<or> Kind v = KInt32 \<or> Kind v = KInt64 then
            (case Len t of Inl p \<Rightarrow> Inl p | Inr l \<Rightarrow> SetInt a v (of_nat l))
          else if Kind v = KUint8 \<or> Kind v = KUint32 \<or> Kind v = KUint64 then
            (case Len t of Inl p \<Rightarrow> Inl p | Inr l \<Rightarrow> SetUint a v (of_nat l))
          else Inr v)"

text \<open>
  The second switch, for the kinds written with one \<open>Write\<close>: \<open>n.val.Int()\<close> and
  \<open>n.val.Uint()\<close> widen to 64 bits, the conversion to the written width truncates.
\<close>

fun scalar_bytes :: "ByteOrder \<Rightarrow> val \<Rightarrow> byte list option" where
  "scalar_bytes order (VInt8 x) = Some [ucast (scast x :: 64 word)]"
| "scalar_bytes order (VUint8 x) = Some [ucast (ucast x :: 64 word)]"
| "scalar_bytes order (VInt16 x) = Some (PutUint16 order (ucast (scast x :: 64 word)))"
| "scalar_bytes order (VUint16 x) = Some (PutUint16 order (ucast (ucast x :: 64 word)))"
| "scalar_bytes order (VInt32 x) = Some (PutUint32 order (ucast (scast x :: 64 word)))"
| "scalar_bytes order (VUint32 x) = Some (PutUint32 order (ucast (ucast x :: 64 word)))"
| "scalar_bytes order (VInt64 x) = Some (PutUint64 order x)"
| "scalar_bytes order (VUint64 x) = Some (PutUint64 order x)"
| "scalar_bytes order (VFloat32 x) = Some (PutUint32 order x)"
| "scalar_bytes order (VFloat64 x) = Some (PutUint64 order x)"
| "scalar_bytes order v = None"

text \<open>The cases of \<open>encodeVisitor.visit\<close> that do not recurse.\<close>

definition encode_leaf :: "'w Writer \<Rightarrow> ByteOrder \<Rightarrow> bool \<Rightarrow> node \<Rightarrow> val \<Rightarrow> 'w \<Rightarrow> failure option \<times> val \<times> 'w" where
  "encode_leaf wr vorder a n v w =
     (let order = resolve_order vorder n in
      case set_sizeof a n v of
        Inl p \<Rightarrow> (Some (Panic p), v, w)
      | Inr v' \<Rightarrow>
          (case v' of
             VString s \<Rightarrow>
               (let w' = Write wr s w in
                (None, v', if n_nullTerminated n then Write wr [0] w' else w'))
           | _ \<Rightarrow>
               (case scalar_bytes order v' of
                  Some b \<Rightarrow> (None, v', Write wr b w)
                | None \<Rightarrow> (Some (unsupported (Kind v')), v', w))))"

text \<open>
  The traversal with the encoder as its visitor.  Every function returns the failure, if
  any, the value as the traversal leaves it in the caller's memory, and the sink.
  \<^item> \<open>run_encode\<close> is \<open>runVisitorInternal\<close> from its first statement, for a node already made
    (by \<open>field_node\<close> for a field, \<open>root_node\<close> otherwise); \<open>a\<close> tells whether \<open>val\<close> is
    assignable.
  \<^item> \<open>switch_encode\<close> is its \<open>switch val.Kind()\<close>.
  \<^item> \<open>visit_encode\<close> is \<open>encodeVisitor.visit\<close>; \<open>vorder\<close> is \<open>v.order\<close>.
  \<^item> \<open>fields_encode\<close> is the loop over the fields of a struct: \<open>done\<close> are the fields already
    visited, as they are now.
  \<^item> \<open>elems_encode\<close> is the loop over the elements of an array or slice, each encoded by
    \<open>encode(v.writer, n.val.Index(i), order)\<close>.
\<close>

function run_encode :: "'w Writer \<Rightarrow> ByteOrder \<Rightarrow> bool \<Rightarrow> node \<Rightarrow> val \<Rightarrow> 'w \<Rightarrow> failure option \<times> val \<times> 'w"
and switch_encode :: "'w Writer \<Rightarrow> ByteOrder \<Rightarrow> bool \<Rightarrow> node \<Rightarrow> val \<Rightarrow> 'w \<Rightarrow> failure option \<times> val \<times> 'w"
and visit_encode :: "'w Writer \<Rightarrow> ByteOrder \<Rightarrow> bool \<Rightarrow> node \<Rightarrow> val \<Rightarrow> 'w \<Rightarrow> failure option \<times> val \<times> 'w"
and fields_encode :: "'w Writer \<Rightarrow> ByteOrder \<Rightarrow> bool \<Rightarrow> field list \<Rightarrow> field list \<Rightarrow> sizeFroms \<Rightarrow> 'w \<Rightarrow> failure option \<times> field list \<times> 'w"
and elems_encode :: "'w Writer \<Rightarrow> ByteOrder \<Rightarrow> bool \<Rightarrow> val list \<Rightarrow> 'w \<Rightarrow> failure option \<times> val list \<times> 'w"
where
  "run_encode wr vorder a n v w =
     (case v of
        VPtr None \<Rightarrow> (Some (unsupported KInvalid), v, w)
      | VPtr (Some v1) \<Rightarrow>
          (case switch_encode wr vorder True n v1 w of (r, v', w') \<Rightarrow> (r, VPtr (Some v'), w'))
      | _ \<Rightarrow> switch_encode wr vorder a n v w)"
| "switch_encode wr vorder a n v w =
     (case v of
        VStruct fs \<Rightarrow>
          (case fields_encode wr vorder a [] fs Map.empty w of
             (r, fs', w') \<Rightarrow> (r, VStruct fs', w'))
      | VPtr p \<Rightarrow> (Some (unsupported KPtr), v, w)
      | VOpaque k l \<Rightarrow> (Some (unsupported k), v, w)
      | _ \<Rightarrow> visit_encode wr vorder a n v w)"
| "visit_encode wr vorder a n v w =
     (case v of
        VArray es \<Rightarrow>
          (case elems_encode wr (resolve_order vorder n) a es w of
             (r, es', w') \<Rightarrow> (r, VArray es', w'))
      | VSlice z es \<Rightarrow>
          (case elems_encode wr (resolve_order vorder n) True es w of
             (r, es', w') \<Rightarrow> (r, VSlice z es', w'))
      | _ \<Rightarrow> encode_leaf wr vorder a n v w)"
| "fields_encode wr vorder a done [] sf w = (None, done, w)"
| "fields_encode wr vorder a done ((name, tag, v) # rest) sf w =
     (case field_node (done @ (name, tag, v) # rest) sf (length done) name tag of
        (n, sf') \<Rightarrow>
          (case run_encode wr vorder a n v w of
             (Some e, v', w') \<Rightarrow> (Some e, done @ (name, tag, v') # rest, w')
           | (None, v', w') \<Rightarrow> fields_encode wr vorder a (done @ [(name, tag, v')]) rest sf' w'))"
| "elems_encode wr order a [] w = (None, [], w)"
| "elems_encode wr order a (e # es) w =
     (case run_encode wr order a root_node e w of
        (Some f, e', w') \<Rightarrow> (Some f, e' # es, w')
      | (None, e', w') \<Rightarrow>
          (case elems_encode wr order a es w' of (r, es', w'') \<Rightarrow> (r, e' # es', w'')))"
  by pat_completeness auto
termination
  by (relation "measure (\<lambda>x. case x of
        Inl (Inl (wr, vorder, a, n, v, w)) \<Rightarrow> 3 * size v + 2
      | Inl (Inr (wr, vorder, a, n, v, w)) \<Rightarrow> 3 * size v + 1
      | Inr (Inl (wr, vorder, a, n, v, w)) \<Rightarrow> 3 * size v
      | Inr (Inr (Inl (wr, vorder, a, done, todo, sf, w))) \<Rightarrow>
          3 * size_list (size_prod (\<lambda>_. 0) (size_prod (\<lambda>_. 0) size)) todo + 2
      | Inr (Inr (Inr (wr, order, a, es, w))) \<Rightarrow> 3 * size_list size es + 2)")
    simp_all

text \<open>\<open>encode\<close>, \<open>Encode\<close> and \<open>EncodeWithOrder\<close>; \<open>reflect.ValueOf(v)\<close> is not assignable.\<close>

definition encode :: "'w Writer \<Rightarrow> 'w \<Rightarrow> val \<Rightarrow> ByteOrder \<Rightarrow> failure option \<times> val \<times> 'w" where
  "encode wr w v order = run_encode wr order False root_node v w"

definition Encode :: "'w Writer \<Rightarrow> 'w \<Rightarrow> val \<Rightarrow> failure option \<times> val \<times> 'w" where
  "Encode wr w v = encode wr w v LittleEndian"

definition EncodeWithOrder :: "'w Writer \<Rightarrow> 'w \<Rightarrow> val \<Rightarrow> ByteOrder \<Rightarrow> failure option \<times> val \<times> 'w" where
  "EncodeWithOrder wr w v order = encode wr w v order"

text \<open>\<open>bytes.Buffer\<close> as a sink: \<open>Write\<close> appends and reports no error.\<close>

definition buffer_Write :: "byte list Writer" where
  "buffer_Write buf b = (buf @ b, None)"

section \<open>\<open>wire.go\<close>: the length calculator\<close>

text \<open>The cases of \<open>sizeofVisitor.visit\<close> that add a fixed width.\<close>

fun scalar_size :: "val \<Rightarrow> int option" where
  "scalar_size (VInt8 x) = Some 1"
| "scalar_size (VUint8 x) = Some 1"
| "scalar_size (VInt16 x) = Some 2"
| "scalar_size (VUint16 x) = Some 2"
| "scalar_size (VInt32 x) = Some 4"
| "scalar_size (VUint32 x) = Some 4"
| "scalar_size (VFloat32 x) = Some 4"
| "scalar_size (VInt64 x) = Some 8"
| "scalar_size (VUint64 x) = Some 8"
| "scalar_size (VFloat64 x) = Some 8"
| "scalar_size (VComplex64 x y) = Some 8"
| "scalar_size (VComplex128 x y) = Some 16"
| "scalar_size v = None"

definition sizeof_leaf :: "node \<Rightarrow> val \<Rightarrow> int \<Rightarrow> failure + int" where
  "sizeof_leaf n v sz =
     (case v of
        VString s \<Rightarrow>
          (if n_nullTerminated n then Inr (sz + (int (length s) + 1))
           else Inr (sz + int (length s)))
      | _ \<Rightarrow>
          (case scalar_size v of
             Some k \<Rightarrow> Inr (sz + k)
           | None \<Rightarrow> Inl (unsupported (Kind v))))"

text \<open>
  The traversal with the length calculator as its visitor; \<open>sz\<close> is \<open>v.size\<close>, and a failure
  leaves no size.  The value is only read, so the loop over the fields returns no fields.
  The call \<open>sizeof(x)\<close> of the source, a traversal of \<open>x\<close> with a visitor of its own, is
  \<open>run_sizeof root_node x 0\<close>.  \<open>n.val.Type().Elem().Kind()\<close> is read off the first element,
  which exists where the source asks for it.
\<close>

function run_sizeof :: "node \<Rightarrow> val \<Rightarrow> int \<Rightarrow> failure + int"
and switch_sizeof :: "node \<Rightarrow> val \<Rightarrow> int \<Rightarrow> failure + int"
and visit_sizeof :: "node \<Rightarrow> val \<Rightarrow> int \<Rightarrow> failure + int"
and fields_sizeof :: "field list \<Rightarrow> field list \<Rightarrow> sizeFroms \<Rightarrow> int \<Rightarrow> failure + int"
and elems_sizeof :: "val list \<Rightarrow> int \<Rightarrow> failure + int"
where
  "run_sizeof n v sz =
     (case v of
        VPtr None \<Rightarrow> Inl (unsupported KInvalid)
      | VPtr (Some v1) \<Rightarrow> switch_sizeof n v1 sz
      | _ \<Rightarrow> switch_sizeof n v sz)"
| "switch_sizeof n v sz =
     (case v of
        VStruct fs \<Rightarrow> fields_sizeof [] fs Map.empty sz
      | VPtr p \<Rightarrow> Inl (unsupported KPtr)
      | VOpaque k l \<Rightarrow> Inl (unsupported k)
      | _ \<Rightarrow> visit_sizeof n v sz)"
| "visit_sizeof n v sz =
     (case v of
        VArray es \<Rightarrow>
          (case es of
             [] \<Rightarrow> Inr sz
           | e # es' \<Rightarrow>
               if Kind e = KStruct then elems_sizeof es sz
               else (case run_sizeof root_node e 0 of
                       Inl f \<Rightarrow> Inl f
                     | Inr isize \<Rightarrow> Inr (sz + int (length es) * isize)))
      | VSlice z es \<Rightarrow>
          (case es of
             [] \<Rightarrow> Inr sz
           | e # es' \<Rightarrow>
               if Kind e = KStruct then elems_sizeof es sz
               else (case run_sizeof root_node e 0 of
                       Inl f \<Rightarrow> Inl f
                     | Inr isize \<Rightarrow> Inr (sz + int (length es) * isize)))
      | _ \<Rightarrow> sizeof_leaf n v sz)"
| "fields_sizeof done [] sf sz = Inr sz"
| "fields_sizeof done ((name, tag, v) # rest) sf sz =
     (case field_node (done @ (name, tag, v) # rest) sf (length done) name tag of
        (n, sf') \<Rightarrow>
          (case run_sizeof n v sz of
             Inl f \<Rightarrow> Inl f
           | Inr sz' \<Rightarrow> fields_sizeof (done @ [(name, tag, v)]) rest sf' sz'))"
| "elems_sizeof [] sz = Inr sz"
| "elems_sizeof (e # es) sz =
     (case run_sizeof root_node e 0 of
        Inl f \<Rightarrow> Inl f
      | Inr isize \<Rightarrow> elems_sizeof es (sz + isize))"
  by pat_completeness auto
termination
  by (relation "measure (\<lambda>x. case x of
        Inl (Inl (n, v, sz)) \<Rightarrow> 3 * size v + 2
      | Inl (Inr (n, v, sz)) \<Rightarrow> 3 * size v + 1
      | Inr (Inl (n, v, sz)) \<Rightarrow> 3 * size v
      | Inr (Inr (Inl (done, todo, sf, sz))) \<Rightarrow>
          3 * size_list (size_prod (\<lambda>_. 0) (size_prod (\<lambda>_. 0) size)) todo + 2
      | Inr (Inr (Inr (es, sz))) \<Rightarrow> 3 * size_list size es + 2)")
    simp_all

text \<open>\<open>sizeof\<close> and \<open>Sizeof\<close>: the size, or \<open>-1\<close> and the failure.\<close>

definition sizeof :: "val \<Rightarrow> int \<times> failure option" where
  "sizeof v = (case run_sizeof root_node v 0 of Inl f \<Rightarrow> (- 1, Some f) | Inr sz \<Rightarrow> (sz, None))"

definition Sizeof :: "val \<Rightarrow> int \<times> failure option" where
  "Sizeof v = sizeof v"

section \<open>\<open>wire.go\<close>: the decoder\<close>

text \<open>
  The byte source is the \<open>bytes.Buffer\<close> of the package's tests: the bytes not read yet.
  \<open>Read(p)\<close> with \<open>len(p) = k\<close> copies as many of them as fit; with nothing left it reports
  \<open>io.EOF\<close>, unless \<open>k = 0\<close>; a read that gets fewer than \<open>k\<close> bytes reports nothing.
  Every buffer the decoder reads into starts as zeros, so \<open>Read\<close> returns the buffer
  after the call, the error, and the source.
\<close>

definition Read :: "nat \<Rightarrow> byte list \<Rightarrow> byte list \<times> error option \<times> byte list" where
  "Read k r =
     (if r = [] then (replicate k 0, (if k = 0 then None else Some EOF), r)
      else (take k r @ replicate (k - length r) 0, None, drop k r))"

function read_loop :: "byte list \<Rightarrow> byte list \<Rightarrow> (error + byte list) \<times> byte list" where
  "read_loop buf r =
     (case Read 1 r of
        (single, Some err, r') \<Rightarrow> (Inl err, r')
      | (single, None, r') \<Rightarrow>
          if single ! 0 = 0 then (Inr buf, r') else read_loop (buf @ [single ! 0]) r')"
  by pat_completeness auto
termination
  by (relation "measure (\<lambda>(buf, r). length r)") (auto simp: Read_def split: if_splits)

definition readNullTerminatedString :: "byte list \<Rightarrow> (error + byte list) \<times> byte list" where
  "readNullTerminatedString r = read_loop [] r"

text \<open>
  The cases of \<open>decodeVisitor.visit\<close> that read a fixed width: the read, then the store of
  what the buffer holds, whatever the read reported.  The conversion of the unsigned
  value read to \<open>int64\<close> or \<open>uint64\<close> extends it with zeros.
\<close>

fun scalar_read :: "ByteOrder \<Rightarrow> bool \<Rightarrow> val \<Rightarrow> byte list \<Rightarrow> ((panic + val) \<times> error option \<times> byte list) option" where
  "scalar_read order a (VInt8 x) r =
     Some (case Read 1 r of (db, err, r') \<Rightarrow> (SetInt a (VInt8 x) (ucast (db ! 0)), err, r'))"
| "scalar_read order a (VUint8 x) r =
     Some (case Read 1 r of (db, err, r') \<Rightarrow> (SetUint a (VUint8 x) (ucast (db ! 0)), err, r'))"
| "scalar_read order a (VInt16 x) r =
     Some (case Read 2 r of (dw, err, r') \<Rightarrow> (SetInt a (VInt16 x) (ucast (Uint16 order dw)), err, r'))"
| "scalar_read order a (VUint16 x) r =
     Some (case Read 2 r of (dw, err, r') \<Rightarrow> (SetUint a (VUint16 x) (ucast (Uint16 order dw)), err, r'))"
| "scalar_read order a (VInt32 x) r =
     Some (case Read 4 r of (dd, err, r') \<Rightarrow> (SetInt a (VInt32 x) (ucast (Uint32 order dd)), err, r'))"
| "scalar_read order a (VUint32 x) r =
     Some (case Read 4 r of (dd, err, r') \<Rightarrow> (SetUint a (VUint32 x) (ucast (Uint32 order dd)), err, r'))"
| "scalar_read order a (VInt64 x) r =
     Some (case Read 8 r of (dq, err, r') \<Rightarrow> (SetInt a (VInt64 x) (Uint64 order dq), err, r'))"
| "scalar_read order a (VUint64 x) r =
     Some (case Read 8 r of (dq, err, r') \<Rightarrow> (SetUint a (VUint64 x) (Uint64 order dq), err, r'))"
| "scalar_read order a v r = None"

text \<open>
  The cases of \<open>decodeVisitor.visit\<close> that do not recurse.  \<open>n.sizeFrom.val\<close> with
  \<open>n.sizeFrom\<close> nil is a nil pointer dereference.
\<close>

definition decode_leaf :: "ByteOrder \<Rightarrow> bool \<Rightarrow> node \<Rightarrow> val \<Rightarrow> byte list \<Rightarrow> failure option \<times> val \<times> byte list" where
  "decode_leaf vorder a n v r =
     (let order = resolve_order vorder n in
      case v of
        VString s \<Rightarrow>
          if n_nullTerminated n then
            (case readNullTerminatedString r of
               (Inl err, r') \<Rightarrow>
                 (case SetString a v [] of
                    Inl p \<Rightarrow> (Some (Panic p), v, r')
                  | Inr v' \<Rightarrow> (Some (Err err), v', r'))
             | (Inr str, r') \<Rightarrow>
                 (case SetString a v str of
                    Inl p \<Rightarrow> (Some (Panic p), v, r')
                  | Inr v' \<Rightarrow> (None, v', r')))
          else
            (case n_sizeFrom n of
               None \<Rightarrow> (Some (Panic NilPointerDereference), v, r)
             | Some pv \<Rightarrow>
                 (case Uint pv of
                    Inl p \<Rightarrow> (Some (Panic p), v, r)
                  | Inr x \<Rightarrow>
                      (case Read (unat x) r of
                         (buf, err, r') \<Rightarrow>
                           (case SetString a v buf of
                              Inl p \<Rightarrow> (Some (Panic p), v, r')
                            | Inr v' \<Rightarrow> (map_option Err err, v', r')))))
      | _ \<Rightarrow>
          (case scalar_read order a v r of
             None \<Rightarrow> (Some (unsupported (Kind v)), v, r)
           | Some (Inl p, err, r') \<Rightarrow> (Some (Panic p), v, r')
           | Some (Inr v', err, r') \<Rightarrow> (map_option Err err, v', r')))"

text \<open>
  The traversal with the decoder as its visitor, laid out as for the encoder; \<open>r\<close> is the
  source.  \<open>fresh_decode\<close> is the loop over the \<open>k\<close> elements of the slice that
  \<open>reflect.MakeSlice\<close> has just made, each the zero value \<open>z\<close> when the loop reaches it;
  \<open>int(n.sizeFrom.val.Uint())\<close> is negative from \<open>2 ^ 63\<close> on, and \<open>MakeSlice\<close> panics then.
\<close>

function run_decode :: "ByteOrder \<Rightarrow> bool \<Rightarrow> node \<Rightarrow> val \<Rightarrow> byte list \<Rightarrow> failure option \<times> val \<times> byte list"
and switch_decode :: "ByteOrder \<Rightarrow> bool \<Rightarrow> node \<Rightarrow> val \<Rightarrow> byte list \<Rightarrow> failure option \<times> val \<times> byte list"
and visit_decode :: "ByteOrder \<Rightarrow> bool \<Rightarrow> node \<Rightarrow> val \<Rightarrow> byte list \<Rightarrow> failure option \<times> val \<times> byte list"
and fields_decode :: "ByteOrder \<Rightarrow> bool \<Rightarrow> field list \<Rightarrow> field list \<Rightarrow> sizeFroms \<Rightarrow> byte list \<Rightarrow> failure option \<times> field list \<times> byte list"
and elems_decode :: "ByteOrder \<Rightarrow> bool \<Rightarrow> val list \<Rightarrow> byte list \<Rightarrow> failure option \<times> val list \<times> byte list"
and fresh_decode :: "ByteOrder \<Rightarrow> val \<Rightarrow> nat \<Rightarrow> byte list \<Rightarrow> failure option \<times> val list \<times> byte list"
where
  "run_decode vorder a n v r =
     (case v of
        VPtr None \<Rightarrow> (Some (unsupported KInvalid), v, r)
      | VPtr (Some v1) \<Rightarrow>
          (case switch_decode vorder True n v1 r of (f, v', r') \<Rightarrow> (f, VPtr (Some v'), r'))
      | _ \<Rightarrow> switch_decode vorder a n v r)"
| "switch_decode vorder a n v r =
     (case v of
        VStruct fs \<Rightarrow>
          (case fields_decode vorder a [] fs Map.empty r of
             (f, fs', r') \<Rightarrow> (f, VStruct fs', r'))
      | VPtr p \<Rightarrow> (Some (unsupported KPtr), v, r)
      | VOpaque k l \<Rightarrow> (Some (unsupported k), v, r)
      | _ \<Rightarrow> visit_decode vorder a n v r)"
| "visit_decode vorder a n v r =
     (case v of
        VArray es \<Rightarrow>
          (case elems_decode (resolve_order vorder n) a es r of
             (f, es', r') \<Rightarrow> (f, VArray es', r'))
      | VSlice z es \<Rightarrow>
          (case n_sizeFrom n of
             None \<Rightarrow> (Some no_size_source, v, r)
           | Some pv \<Rightarrow>
               (case Uint pv of
                  Inl p \<Rightarrow> (Some (Panic p), v, r)
                | Inr x \<Rightarrow>
                    if sint x < 0 then (Some (Panic NegativeLen), v, r)
                    else if \<not> a then (Some (Panic NotAssignable), v, r)
                    else (case fresh_decode (resolve_order vorder n) z (unat x) r of
                            (f, es', r') \<Rightarrow> (f, VSlice z es', r'))))
      | _ \<Rightarrow> decode_leaf vorder a n v r)"
| "fields_decode vorder a done [] sf r = (None, done, r)"
| "fields_decode vorder a done ((name, tag, v) # rest) sf r =
     (case field_node (done @ (name, tag, v) # rest) sf (length done) name tag of
        (n, sf') \<Rightarrow>
          (case run_decode vorder a n v r of
             (Some e, v', r') \<Rightarrow> (Some e, done @ (name, tag, v') # rest, r')
           | (None, v', r') \<Rightarrow> fields_decode vorder a (done @ [(name, tag, v')]) rest sf' r'))"
| "elems_decode order a [] r = (None, [], r)"
| "elems_decode order a (e # es) r =
     (case run_decode order a root_node e r of
        (Some f, e', r') \<Rightarrow> (Some f, e' # es, r')
      | (None, e', r') \<Rightarrow>
          (case elems_decode order a es r' of (f, es', r'') \<Rightarrow> (f, e' # es', r'')))"
| "fresh_decode order z k r =
     (if k = 0 then (None, [], r)
      else (case run_decode order True root_node z r of
              (Some f, e', r') \<Rightarrow> (Some f, e' # replicate (k - 1) z, r')
            | (None, e', r') \<Rightarrow>
                (case fresh_decode order z (k - 1) r' of (f, es', r'') \<Rightarrow> (f, e' # es', r''))))"
  by pat_completeness auto
termination
  by (relation "measures
       [\<lambda>x. case x of
          Inl (Inl (vorder, a, n, v, r)) \<Rightarrow> 4 * size v + 3
        | Inl (Inr (Inl (vorder, a, n, v, r))) \<Rightarrow> 4 * size v + 2
        | Inl (Inr (Inr (vorder, a, n, v, r))) \<Rightarrow> 4 * size v + 1
        | Inr (Inl (vorder, a, done, todo, sf, r)) \<Rightarrow>
            4 * size_list (size_prod (\<lambda>_. 0) (size_prod (\<lambda>_. 0) size)) todo + 4
        | Inr (Inr (Inl (order, a, es, r))) \<Rightarrow> 4 * size_list size es + 4
        | Inr (Inr (Inr (order, z, k, r))) \<Rightarrow> 4 * size z + 4,
        \<lambda>x. case x of
          Inr (Inr (Inr (order, z, k, r))) \<Rightarrow> k
        | _ \<Rightarrow> 0]")
    simp_all

text \<open>\<open>decode\<close>, \<open>Decode\<close> and \<open>DecodeWithOrder\<close>.\<close>

definition decode :: "byte list \<Rightarrow> val \<Rightarrow> ByteOrder \<Rightarrow> failure option \<times> val \<times> byte list" where
  "decode r v order = run_decode order False root_node v r"

definition Decode :: "byte list \<Rightarrow> val \<Rightarrow> failure option \<times> val \<times> byte list" where
  "Decode r v = decode r v LittleEndian"

definition DecodeWithOrder :: "byte list \<Rightarrow> val \<Rightarrow> ByteOrder \<Rightarrow> failure option \<times> val \<times> byte list" where
  "DecodeWithOrder r v order = decode r v order"

section \<open>Values that decode back\<close>

text \<open>
  The fresh value of the type of a value, Go's zero value of that type (\<open>testStruct{}\<close> in
  the package's tests): numbers are zero, strings are empty, slices and pointers are nil,
  arrays and structs hold fresh elements and fields.
\<close>

fun zero :: "val \<Rightarrow> val" where
  "zero (VBool x) = VBool False"
| "zero (VInt x) = VInt 0"
| "zero (VInt8 x) = VInt8 0"
| "zero (VInt16 x) = VInt16 0"
| "zero (VInt32 x) = VInt32 0"
| "zero (VInt64 x) = VInt64 0"
| "zero (VUint x) = VUint 0"
| "zero (VUint8 x) = VUint8 0"
| "zero (VUint16 x) = VUint16 0"
| "zero (VUint32 x) = VUint32 0"
| "zero (VUint64 x) = VUint64 0"
| "zero (VUintptr x) = VUintptr 0"
| "zero (VFloat32 x) = VFloat32 0"
| "zero (VFloat64 x) = VFloat64 0"
| "zero (VComplex64 x y) = VComplex64 0 0"
| "zero (VComplex128 x y) = VComplex128 0 0"
| "zero (VArray es) = VArray (map zero es)"
| "zero (VSlice z es) = VSlice z []"
| "zero (VString s) = VString []"
| "zero (VStruct fs) = VStruct (map (\<lambda>(name, tag, v). (name, tag, zero v)) fs)"
| "zero (VPtr p) = VPtr None"
| "zero (VOpaque k l) = VOpaque k 0"

text \<open>A field with a fresh value.\<close>

definition zero_field :: "field \<Rightarrow> field" where
  "zero_field f = (case f of (name, tag, v) \<Rightarrow> (name, tag, zero v))"

text \<open>
  The count the decoder takes from the length field of a node: \<open>n.sizeFrom.val.Uint()\<close>,
  where \<open>n.sizeFrom\<close> is set and the call does not panic.
\<close>

definition count_of :: "node \<Rightarrow> 64 word option" where
  "count_of n =
     (case n_sizeFrom n of
        None \<Rightarrow> None
      | Some pv \<Rightarrow> (case Uint pv of Inl p \<Rightarrow> None | Inr x \<Rightarrow> Some x))"

text \<open>
  A value is linked when the decoder finds all it needs to read the value back:
  \<^item> a leaf is a string or an integer of 8, 16, 32 or 64 bits (the kinds \<open>decodeVisitor.visit\<close>
    reads);
  \<^item> a string tagged \<open>nullterm\<close> holds no zero byte; any other string has a length field,
    of an unsigned kind, that holds its length in bytes;
  \<^item> a slice has a length field, of an unsigned kind, that holds its length (as an \<open>int\<close>
    that is not negative), and its elements are of its element type;
  \<^item> the elements of an array or slice are linked as values visited with neither parent
    nor field; the fields of a struct are linked with the nodes the traversal makes for
    them, \<open>done\<close> being the fields before, so that a length field is one registered, under the
    name of the field it describes, by a field declared before that field;
  \<^item> no pointer and no value of another kind occurs inside.
\<close>

definition linked_leaf :: "node \<Rightarrow> val \<Rightarrow> bool" where
  "linked_leaf n v =
     (case v of
        VString s \<Rightarrow>
          if n_nullTerminated n then 0 \<notin> set s
          else (case count_of n of None \<Rightarrow> False | Some x \<Rightarrow> unat x = length s)
      | _ \<Rightarrow> scalar_read LittleEndian True v [] \<noteq> None)"

function linked_val :: "node \<Rightarrow> val \<Rightarrow> bool"
and linked_fields :: "field list \<Rightarrow> field list \<Rightarrow> sizeFroms \<Rightarrow> bool"
and linked_elems :: "val list \<Rightarrow> bool"
where
  "linked_val n v =
     (case v of
        VArray es \<Rightarrow> linked_elems es
      | VSlice z es \<Rightarrow>
          (case count_of n of None \<Rightarrow> False | Some x \<Rightarrow> unat x = length es \<and> 0 \<le> sint x)
          \<and> map zero es = replicate (length es) z
          \<and> linked_elems es
      | VStruct fs \<Rightarrow> linked_fields [] fs Map.empty
      | VPtr p \<Rightarrow> False
      | VOpaque k l \<Rightarrow> False
      | _ \<Rightarrow> linked_leaf n v)"
| "linked_fields done [] sf = True"
| "linked_fields done ((name, tag, v) # rest) sf =
     (case field_node (done @ (name, tag, v) # rest) sf (length done) name tag of
        (n, sf') \<Rightarrow> linked_val n v \<and> linked_fields (done @ [(name, tag, v)]) rest sf')"
| "linked_elems [] = True"
| "linked_elems (e # es) = (linked_val root_node e \<and> linked_elems es)"
  by pat_completeness auto
termination
  by (relation "measure (\<lambda>x. case x of
        Inl (n, v) \<Rightarrow> 2 * size v
      | Inr (Inl (done, todo, sf)) \<Rightarrow>
          2 * size_list (size_prod (\<lambda>_. 0) (size_prod (\<lambda>_. 0) size)) todo + 1
      | Inr (Inr es) \<Rightarrow> 2 * size_list size es + 1)")
    simp_all

section \<open>The values the claims name\<close>

text \<open>
  The struct of the package documentation, with \<open>Len\<close> a \<open>uint16\<close> tagged \<open>sizeof=Name,big\<close>,
  \<open>Cmd = 1\<close>, \<open>Name = "ab"\<close> and \<open>Flag = "x"\<close>; \<open>l\<close> is what \<open>Len\<close> holds.
\<close>

definition Example :: "16 word \<Rightarrow> val" where
  "Example l =
     VStruct [(''Cmd'', '''', VUint8 1), (''Len'', ''sizeof=Name,big'', VUint16 l),
       (''Name'', '''', VString [0x61, 0x62]), (''Flag'', ''nullterm'', VString [0x78])]"

text \<open>\<open>struct { A [2]string }\<close> holding \<open>"a"\<close> and \<open>"bcd"\<close>.\<close>

definition Strings :: val where
  "Strings = VStruct [(''A'', '''', VArray [VString [0x61], VString [0x62, 0x63, 0x64]])]"

text \<open>\<open>struct { Items []uint8 }\<close>.\<close>

definition Items :: "val list \<Rightarrow> val" where
  "Items es = VStruct [(''Items'', '''', VSlice (VUint8 0) es)]"

text \<open>\<open>struct { Count uint16 `wire:"sizeof=Items"`; Items []uint8 }\<close> with three elements.\<close>

definition Counted :: "16 word \<Rightarrow> val" where
  "Counted c =
     VStruct [(''Count'', ''sizeof=Items'', VUint16 c),
       (''Items'', '''', VSlice (VUint8 0) [VUint8 1, VUint8 2, VUint8 3])]"

text \<open>A sink that takes nothing and reports \<open>io.ErrClosedPipe\<close> on every \<open>Write\<close>.\<close>

definition closed_Write :: "byte list Writer" where
  "closed_Write w b = (w, Some ErrClosedPipe)"

text \<open>\<open>struct { Name string }\<close>.\<close>

definition Named :: val where
  "Named = VStruct [(''Name'', '''', VString [])]"

text \<open>\<open>struct { In innerStruct `wire:"big"` }\<close> with \<open>innerStruct\<close> of the package's tests.\<close>

definition Outer :: val where
  "Outer = VStruct [(''In'', ''big'', VStruct [(''U32'', '''', VUint32 0x11223344)])]"

text \<open>\<open>struct { N int8 `wire:"sizeof=Items"`; Items []uint8 }\<close>.\<close>

definition Signed :: "8 word \<Rightarrow> val list \<Rightarrow> val" where
  "Signed c es =
     VStruct [(''N'', ''sizeof=Items'', VInt8 c), (''Items'', '''', VSlice (VUint8 0) es)]"

text \<open>\<open>testStruct\<close> and \<open>refStruct\<close> of \<open>wire_test.go\<close>; \<open>tf\<close> and \<open>ss\<close> are what \<open>TF\<close> and \<open>SS\<close> hold.\<close>

definition innerStruct :: "32 word \<Rightarrow> val" where
  "innerStruct x = VStruct [(''U32'', '''', VUint32 x)]"

definition refStruct :: "32 word \<Rightarrow> 32 word \<Rightarrow> val" where
  "refStruct tf ss =
     VStruct [
       (''I8'', '''', VInt8 0x11), (''I16'', '''', VInt16 0x1122),
       (''I32'', ''little'', VInt32 0x11223344), (''I64'', '''', VInt64 0x1122334455667788),
       (''U8'', '''', VUint8 0x11), (''U16'', '''', VUint16 0x1122),
       (''U32'', ''big'', VUint32 0x11223344), (''U64'', '''', VUint64 0x1122334455667788),
       (''AU32'', '''', VArray [VUint32 0, VUint32 1, VUint32 2, VUint32 3]),
       (''SU32'', '''', VArray [VUint32 0, VUint32 1, VUint32 2, VUint32 3]),
       (''TF'', ''little,sizeof=SIS'', VUint32 tf),
       (''IS'', '''', innerStruct 0x11223344),
       (''AIS'', '''', VArray [innerStruct 0, innerStruct 1]),
       (''SIS'', '''', VSlice (innerStruct 0) [innerStruct 0, innerStruct 1]),
       (''SZ'', ''nullterm'', VString [0x68, 0x65, 0x6c, 0x6c, 0x6f]),
       (''SS'', ''sizeof=SQ'', VUint32 ss),
       (''SQ'', '''', VString [0x62, 0x61, 0x6e, 0x61, 0x6e])]"

definition refBytes :: "byte list" where
  "refBytes =
     [0x11,
      0x11, 0x22,
      0x44, 0x33, 0x22, 0x11,
      0x11, 0x22, 0x33, 0x44, 0x55, 0x66, 0x77, 0x88,
      0x11,
      0x11, 0x22,
      0x11, 0x22, 0x33, 0x44,
      0x11, 0x22, 0x33, 0x44, 0x55, 0x66, 0x77, 0x88,
      0x00, 0x00, 0x00, 0x00,
      0x00, 0x00, 0x00, 0x01,
      0x00, 0x00, 0x00, 0x02,
      0x00, 0x00, 0x00, 0x03,
      0x00, 0x00, 0x00, 0x00,
      0x00, 0x00, 0x00, 0x01,
      0x00, 0x00, 0x00, 0x02,
      0x00, 0x00, 0x00, 0x03,
      0x02, 0x00, 0x00, 0x00,
      0x11, 0x22, 0x33, 0x44,
      0x00, 0x00, 0x00, 0x00,
      0x00, 0x00, 0x00, 0x01,
      0x00, 0x00, 0x00, 0x00,
      0x00, 0x00, 0x00, 0x01,
      0x68, 0x65, 0x6c, 0x6c, 0x6f, 0x00,
      0x00, 0x00, 0x00, 0x05,
      0x62, 0x61, 0x6e, 0x61, 0x6e]"

text \<open>\<open>testStruct{}\<close>, the value \<open>TestDecode\<close> decodes into.\<close>

definition emptyStruct :: val where
  "emptyStruct =
     VStruct [
       (''I8'', '''', VInt8 0), (''I16'', '''', VInt16 0),
       (''I32'', ''little'', VInt32 0), (''I64'', '''', VInt64 0),
       (''U8'', '''', VUint8 0), (''U16'', '''', VUint16 0),
       (''U32'', ''big'', VUint32 0), (''U64'', '''', VUint64 0),
       (''AU32'', '''', VArray [VUint32 0, VUint32 0, VUint32 0, VUint32 0]),
       (''SU32'', '''', VArray [VUint32 0, VUint32 0, VUint32 0, VUint32 0]),
       (''TF'', ''little,sizeof=SIS'', VUint32 0),
       (''IS'', '''', innerStruct 0),
       (''AIS'', '''', VArray [innerStruct 0, innerStruct 0]),
       (''SIS'', '''', VSlice (innerStruct 0) []),
       (''SZ'', ''nullterm'', VString []),
       (''SS'', ''sizeof=SQ'', VUint32 0),
       (''SQ'', '''', VString [])]"

section \<open>Unfolding the traversals\<close>

text \<open>
  The equations of the traversal functions that rewrite a call on any value are taken
  out of the simplifier's rules; the proofs below unfold them where they need them.
\<close>

declare fresh_decode.simps [simp del] read_loop.simps [simp del]
declare run_encode.simps [simp del] switch_encode.simps [simp del] visit_encode.simps [simp del]
declare run_decode.simps [simp del] switch_decode.simps [simp del] visit_decode.simps [simp del]
declare linked_val.simps [simp del]

lemmas encode_simps = run_encode.simps switch_encode.simps visit_encode.simps
lemmas decode_simps = run_decode.simps switch_decode.simps visit_decode.simps

section \<open>The tests of the package, run on the embedding\<close>

text \<open>
  \<open>TestSizeof\<close>, \<open>TestEncode\<close> and \<open>TestDecode\<close> of \<open>wire_test.go\<close>.  \<open>TestEncode\<close> leaves
  \<open>TF = 2\<close> and \<open>SS = 5\<close> in \<open>refStruct\<close>, which is what \<open>TestDecode\<close> then compares with.
\<close>

lemma TestSizeof: "Sizeof (VPtr (Some (refStruct 0 0))) = (101, None)"
  by code_simp

lemma TestEncode:
  "EncodeWithOrder buffer_Write [] (VPtr (Some (refStruct 0 0))) BigEndian =
     (None, VPtr (Some (refStruct 2 5)), refBytes)"
  by code_simp

lemma TestDecode:
  "DecodeWithOrder refBytes (VPtr (Some emptyStruct)) BigEndian =
     (None, VPtr (Some (refStruct 2 5)), [])"
  by code_simp

section \<open>Facts about the calls into the libraries\<close>

lemma ucast_ucast8: "ucast (ucast (x :: 8 word) :: 64 word) = x"
  by (rule bit_word_eqI) (simp add: bit_simps)

lemma ucast_ucast16: "ucast (ucast (x :: 16 word) :: 64 word) = x"
  by (rule bit_word_eqI) (simp add: bit_simps)

lemma ucast_ucast32: "ucast (ucast (x :: 32 word) :: 64 word) = x"
  by (rule bit_word_eqI) (simp add: bit_simps)

lemma ucast_scast8: "ucast (scast (x :: 8 word) :: 64 word) = x"
  by (rule bit_word_eqI) (auto simp add: bit_simps)

lemma ucast_scast16: "ucast (scast (x :: 16 word) :: 64 word) = x"
  by (rule bit_word_eqI) (auto simp add: bit_simps)

lemma ucast_scast32: "ucast (scast (x :: 32 word) :: 64 word) = x"
  by (rule bit_word_eqI) (auto simp add: bit_simps)

lemmas narrow_widen =
  ucast_ucast8 ucast_ucast16 ucast_ucast32 ucast_scast8 ucast_scast16 ucast_scast32

text \<open>The tag loop leaves \<open>sizeFrom\<close> alone.\<close>

lemma sizeFrom_apply_directive:
  "n_sizeFrom (fst (apply_directive pfs i (n, sf) d)) = n_sizeFrom n"
  by (cases d) simp_all

lemma sizeFrom_foldl:
  "n_sizeFrom (fst (foldl (apply_directive pfs i) (n, sf) ds)) = n_sizeFrom n"
proof (induction ds arbitrary: n sf)
  case Nil
  show ?case by simp
next
  case (Cons d ds)
  obtain n' sf' where step: "apply_directive pfs i (n, sf) d = (n', sf')"
    by (cases "apply_directive pfs i (n, sf) d")
  have "n_sizeFrom n' = n_sizeFrom n"
    using sizeFrom_apply_directive [of pfs i n sf d] step by simp
  with Cons.IH [of n' sf'] step show ?case by simp
qed

lemma sizeFrom_field_node:
  "sf name = None \<Longrightarrow> n_sizeFrom (fst (field_node pfs sf i name tag)) = None"
  by (simp add: field_node_def sizeFrom_foldl root_node_def)

section \<open>Encoding, then decoding\<close>

lemma Read_exact: "Read (length b) (b @ r) = (b, None, r)"
  by (cases "b @ r = []") (simp_all add: Read_def)

lemma length_Put [simp]:
  "length (PutUint16 order x) = 2" "length (PutUint32 order y) = 4" "length (PutUint64 order z) = 8"
  by (cases order; simp add: PutUint16_def PutUint32_def PutUint64_def)+

lemma Read_Put:
  "Read 2 (PutUint16 order x @ r) = (PutUint16 order x, None, r)"
  "Read 4 (PutUint32 order y @ r) = (PutUint32 order y, None, r)"
  "Read 8 (PutUint64 order z @ r) = (PutUint64 order z, None, r)"
  using Read_exact [of "PutUint16 order x" r] Read_exact [of "PutUint32 order y" r]
    Read_exact [of "PutUint64 order z" r]
  by simp_all

lemma Read_one: "Read (Suc 0) (b # r) = ([b], None, r)"
  using Read_exact [of "[b]" r] by simp

lemma read_loop_terminated:
  "0 \<notin> set s \<Longrightarrow> read_loop buf (s @ 0 # r) = (Inr (buf @ s), r)"
proof (induction s arbitrary: buf)
  case Nil
  show ?case by (subst read_loop.simps) (simp add: Read_one)
next
  case (Cons b s)
  then have "b \<noteq> 0" and "0 \<notin> set s" by auto
  with Cons.IH [of "buf @ [b]"] show ?case
    by (subst read_loop.simps) (simp add: Read_one)
qed

lemma resolve_order_sizeof [simp]:
  "resolve_order vorder (n\<lparr>n_sizeof := x\<rparr>) = resolve_order vorder n"
  by (simp add: resolve_order_def)

lemma decode_leaf_ignores_sizeof:
  "decode_leaf vorder a (n\<lparr>n_sizeof := x\<rparr>) v r = decode_leaf vorder a n v r"
  by (simp add: decode_leaf_def Let_def cong: val.case_cong option.case_cong sum.case_cong if_cong)

lemma visit_decode_ignores_sizeof:
  "visit_decode vorder a (n\<lparr>n_sizeof := x\<rparr>) v r = visit_decode vorder a n v r"
  by (cases v)
    (simp_all add: visit_decode.simps decode_leaf_ignores_sizeof
      cong: option.case_cong sum.case_cong if_cong)

lemma switch_decode_ignores_sizeof:
  "switch_decode vorder a (n\<lparr>n_sizeof := x\<rparr>) v r = switch_decode vorder a n v r"
  by (cases v) (simp_all add: switch_decode.simps visit_decode_ignores_sizeof)

lemma decode_ignores_sizeof:
  "run_decode vorder a (n\<lparr>n_sizeof := x\<rparr>) v r = run_decode vorder a n v r"
proof (cases v)
  case (VPtr p)
  then show ?thesis
    by (cases p) (simp_all add: run_decode.simps switch_decode_ignores_sizeof)
qed (simp_all add: run_decode.simps switch_decode_ignores_sizeof)

lemma fields_encode_shape:
  "fields_encode wr vo a done todo sf w = (f, res, w') \<Longrightarrow>
     \<exists>todo'. res = done @ todo' \<and> length todo' = length todo"
proof (induction todo arbitrary: "done" sf w)
  case Nil
  then show ?case by simp
next
  case (Cons fld rest)
  obtain name tag v where fld: "fld = (name, tag, v)"
    by (cases fld)
  obtain n sf' where fn:
    "field_node (done @ (name, tag, v) # rest) sf (length done) name tag = (n, sf')"
    by (cases "field_node (done @ (name, tag, v) # rest) sf (length done) name tag")
  obtain f1 v1 w1 where run: "run_encode wr vo a n v w = (f1, v1, w1)"
    by (cases "run_encode wr vo a n v w")
  show ?case
  proof (cases f1)
    case None
    with Cons.prems fld fn run
    have "fields_encode wr vo a (done @ [(name, tag, v1)]) rest sf' w1 = (f, res, w')"
      by simp
    from Cons.IH [OF this] obtain todo' where
      "res = (done @ [(name, tag, v1)]) @ todo'" "length todo' = length rest"
      by blast
    then have "res = done @ ((name, tag, v1) # todo') \<and> length ((name, tag, v1) # todo') = length (fld # rest)"
      by simp
    then show ?thesis by blast
  next
    case (Some e)
    with Cons.prems fld fn run have "res = done @ ((name, tag, v1) # rest)"
      by simp
    then have "res = done @ ((name, tag, v1) # rest) \<and> length ((name, tag, v1) # rest) = length (fld # rest)"
      by simp
    then show ?thesis by blast
  qed
qed

lemma node_update_swap:
  "n\<lparr>n_sizeof := y, n_endianness := e\<rparr> = n\<lparr>n_endianness := e, n_sizeof := y\<rparr>"
  "n\<lparr>n_sizeof := y, n_nullTerminated := t\<rparr> = n\<lparr>n_nullTerminated := t, n_sizeof := y\<rparr>"
  by (cases n, simp)+

lemma foldl_directive_rel:
  "\<exists>y'. foldl (apply_directive pfs2 i) (n\<lparr>n_sizeof := y\<rparr>, sf) ds =
     ((fst (foldl (apply_directive pfs1 i) (n, sf) ds))\<lparr>n_sizeof := y'\<rparr>,
      snd (foldl (apply_directive pfs1 i) (n, sf) ds))"
proof (induction ds arbitrary: n sf y)
  case Nil
  show ?case by auto
next
  case (Cons d ds)
  show ?case
  proof (cases d)
    case DBig
    with Cons.IH [where n = "n\<lparr>n_endianness := Some BigEndian\<rparr>" and y = y and sf = sf] show ?thesis
      by (simp add: node_update_swap)
  next
    case DLittle
    with Cons.IH [where n = "n\<lparr>n_endianness := Some LittleEndian\<rparr>" and y = y and sf = sf] show ?thesis
      by (simp add: node_update_swap)
  next
    case DNullterm
    with Cons.IH [where n = "n\<lparr>n_nullTerminated := True\<rparr>" and y = y and sf = sf] show ?thesis
      by (simp add: node_update_swap)
  next
    case (DSizeof x)
    have s1: "apply_directive pfs1 i (n, sf) d = (n\<lparr>n_sizeof := FieldByName pfs1 x\<rparr>, sf(x \<mapsto> i))"
      using DSizeof by simp
    have s2: "apply_directive pfs2 i (n\<lparr>n_sizeof := y\<rparr>, sf) d =
        ((n\<lparr>n_sizeof := FieldByName pfs1 x\<rparr>)\<lparr>n_sizeof := FieldByName pfs2 x\<rparr>, sf(x \<mapsto> i))"
      using DSizeof by simp
    show ?thesis
      unfolding foldl.simps s1 s2 by (rule Cons.IH)
  qed
qed

lemma field_node_rel:
  assumes "\<And>j. sf name = Some j \<Longrightarrow> node_val pfs2 j = node_val pfs1 j"
  shows "\<exists>y. field_node pfs2 sf i name tag =
     ((fst (field_node pfs1 sf i name tag))\<lparr>n_sizeof := y\<rparr>, snd (field_node pfs1 sf i name tag))"
proof -
  let ?n = "root_node\<lparr>n_sizeFrom := (case sf name of None \<Rightarrow> None | Some j \<Rightarrow> node_val pfs1 j)\<rparr>"
  have same: "(case sf name of None \<Rightarrow> None | Some j \<Rightarrow> node_val pfs2 j) =
      (case sf name of None \<Rightarrow> None | Some j \<Rightarrow> node_val pfs1 j)"
    using assms by (cases "sf name") simp_all
  have "?n\<lparr>n_sizeof := None\<rparr> = ?n"
    by (simp add: root_node_def)
  with foldl_directive_rel [where ?pfs2.0 = pfs2 and i = i and n = ?n and y = None and sf = sf
      and ds = "FindAll tag" and ?pfs1.0 = pfs1] same
  show ?thesis by (simp add: field_node_def)
qed

lemma sizeFroms_foldl:
  "snd (foldl (apply_directive pfs i) (n, sf) ds) x = Some j \<Longrightarrow> j = i \<or> sf x = Some j"
proof (induction ds arbitrary: n sf)
  case Nil
  then show ?case by simp
next
  case (Cons d ds)
  show ?case
  proof (cases d)
    case (DSizeof y)
    with Cons.prems
    have "snd (foldl (apply_directive pfs i) (n\<lparr>n_sizeof := FieldByName pfs y\<rparr>, sf(y \<mapsto> i)) ds) x
        = Some j"
      by simp
    from Cons.IH [OF this] have "j = i \<or> (sf(y \<mapsto> i)) x = Some j" .
    then show ?thesis by (cases "x = y") auto
  next
    case DBig
    with Cons.prems Cons.IH [of "n\<lparr>n_endianness := Some BigEndian\<rparr>" sf] show ?thesis by simp
  next
    case DLittle
    with Cons.prems Cons.IH [of "n\<lparr>n_endianness := Some LittleEndian\<rparr>" sf] show ?thesis by simp
  next
    case DNullterm
    with Cons.prems Cons.IH [of "n\<lparr>n_nullTerminated := True\<rparr>" sf] show ?thesis by simp
  qed
qed

lemma sizeFroms_field_node:
  "snd (field_node pfs sf i name tag) x = Some j \<Longrightarrow> j = i \<or> sf x = Some j"
  unfolding field_node_def by (rule sizeFroms_foldl)

lemma fresh_decode_replicate:
  "fresh_decode order z k r = elems_decode order True (replicate k z) r"
proof (induction k arbitrary: r)
  case 0
  show ?case by (subst fresh_decode.simps) simp
next
  case (Suc k)
  show ?case
    by (subst fresh_decode.simps) (simp add: Suc.IH split: prod.split option.split)
qed

lemma Read_one': "Read 1 (b # r) = ([b], None, r)"
  using Read_one [of b r] by simp

lemma bit_byte0:
  "bit (ucast (ucast x :: 8 word) :: 'a::len word) k \<longleftrightarrow> k < 8 \<and> bit (x :: 'a word) k"
  by (auto simp add: bit_simps dest: bit_imp_le_length)

lemma bit_byte:
  "bit (push_bit j (ucast (ucast (drop_bit j x) :: 8 word) :: 'a::len word)) k \<longleftrightarrow>
     j \<le> k \<and> k < j + 8 \<and> bit (x :: 'a word) k"
  by (auto simp add: bit_simps dest: bit_imp_le_length)

lemma Uint16_PutUint16: "Uint16 order (PutUint16 order x) = x"
  by (cases order; simp add: Uint16_def PutUint16_def le16_def; rule bit_word_eqI;
      simp add: bit_or_iff bit_byte bit_byte0; arith)

lemma Uint32_PutUint32: "Uint32 order (PutUint32 order x) = x"
  by (cases order; simp add: Uint32_def PutUint32_def le32_def; rule bit_word_eqI;
      simp add: bit_or_iff bit_byte bit_byte0; arith)

lemma Uint64_PutUint64: "Uint64 order (PutUint64 order x) = x"
  by (cases order; simp add: Uint64_def PutUint64_def le64_def; rule bit_word_eqI;
      simp add: bit_or_iff bit_byte bit_byte0; arith)

lemmas Put_round = Uint16_PutUint16 Uint32_PutUint32 Uint64_PutUint64

lemma leaf_rt:
  assumes enc: "encode_leaf buffer_Write vo a n v w = (None, v, w')"
    and lk: "linked_leaf n v"
  shows "\<exists>bs. w' = w @ bs \<and> (\<forall>r. decode_leaf vo True n (zero v) (bs @ r) = (None, v, r))"
proof (cases v)
  case (VString s)
  have sz: "set_sizeof a n (VString s) = Inr (VString s)"
    by (simp add: set_sizeof_def split: option.split)
  show ?thesis
  proof (cases "n_nullTerminated n")
    case True
    with lk VString have "0 \<notin> set s" by (simp add: linked_leaf_def)
    then have "\<And>r. readNullTerminatedString ((s @ [0]) @ r) = (Inr s, r)"
      using read_loop_terminated [of s "[]"] by (simp add: readNullTerminatedString_def)
    moreover from enc VString True sz have "w' = w @ (s @ [0])"
      by (simp add: encode_leaf_def Write_def buffer_Write_def)
    ultimately show ?thesis
      using VString True by (intro exI [of _ "s @ [0]"]) (simp add: decode_leaf_def)
  next
    case False
    with lk VString obtain x where c: "count_of n = Some x" and len: "unat x = length s"
      by (auto simp add: linked_leaf_def split: option.splits)
    from c obtain pv where pv: "n_sizeFrom n = Some pv" "Uint pv = Inr x"
      by (auto simp add: count_of_def split: option.splits sum.splits)
    from enc VString False sz have "w' = w @ s"
      by (simp add: encode_leaf_def Write_def buffer_Write_def)
    then show ?thesis
      using VString False pv len Read_exact [of s]
      by (intro exI [of _ s]) (simp add: decode_leaf_def)
  qed
qed (use assms in \<open>cases a;
      auto simp add: encode_leaf_def decode_leaf_def set_sizeof_def linked_leaf_def Write_def
        buffer_Write_def Read_Put Read_one Read_one' narrow_widen Put_round
        split: option.splits sum.splits if_splits\<close>)+

lemma elems_rt:
  assumes IH: "\<And>e vo a n w w'. e \<in> set es \<Longrightarrow>
      run_encode buffer_Write vo a n e w = (None, e, w') \<Longrightarrow> linked_val n e \<Longrightarrow>
      \<exists>bs. w' = w @ bs \<and> (\<forall>r. run_decode vo True n (zero e) (bs @ r) = (None, e, r))"
    and enc: "elems_encode buffer_Write order a es w = (None, es, w')"
    and lk: "linked_elems es"
  shows "\<exists>bs. w' = w @ bs \<and>
    (\<forall>r. elems_decode order True (map zero es) (bs @ r) = (None, es, r))"
  using assms
proof (induction es arbitrary: w)
  case Nil
  then show ?case by simp
next
  case (Cons e es)
  obtain f1 e1 w1 where run: "run_encode buffer_Write order a root_node e w = (f1, e1, w1)"
    by (cases "run_encode buffer_Write order a root_node e w")
  obtain f2 es2 w2 where rest: "elems_encode buffer_Write order a es w1 = (f2, es2, w2)"
    by (cases "elems_encode buffer_Write order a es w1")
  from Cons.prems(2) run rest have ok: "f1 = None" "e1 = e" "f2 = None" "es2 = es" "w2 = w'"
    by (auto split: option.splits)
  from Cons.prems(3) have lk: "linked_val root_node e" "linked_elems es"
    by simp_all
  from Cons.prems(1) [of e order a root_node w w1] run ok lk obtain bs1 where
    bs1: "w1 = w @ bs1" "\<And>r. run_decode order True root_node (zero e) (bs1 @ r) = (None, e, r)"
    by auto
  have "\<exists>bs. w' = w1 @ bs \<and>
      (\<forall>r. elems_decode order True (map zero es) (bs @ r) = (None, es, r))"
  proof (rule Cons.IH)
    show "elems_encode buffer_Write order a es w1 = (None, es, w')"
      using rest ok by simp
    show "linked_elems es" by (rule lk)
    show "\<exists>bs. w'' = w0 @ bs \<and> (\<forall>r. run_decode vo True n (zero e') (bs @ r) = (None, e', r))"
      if "e' \<in> set es" "run_encode buffer_Write vo a' n e' w0 = (None, e', w'')" "linked_val n e'"
      for e' vo a' n w0 w''
      using Cons.prems(1) [of e' vo a' n w0 w''] that by simp
  qed
  then obtain bs2 where
    bs2: "w' = w1 @ bs2" "\<And>r. elems_decode order True (map zero es) (bs2 @ r) = (None, es, r)"
    by auto
  have "w' = w @ (bs1 @ bs2)"
    using bs1(1) bs2(1) by simp
  moreover have "elems_decode order True (map zero (e # es)) ((bs1 @ bs2) @ r) = (None, e # es, r)" for r
    using bs1(2) [of "bs2 @ r"] bs2(2) [of r] by simp
  ultimately show ?case by blast
qed

lemma node_val_prefix:
  "j < length done \<Longrightarrow> node_val (done @ xs) j = node_val (done @ ys) j"
  by (simp add: node_val_def nth_append)

lemma fields_rt:
  assumes IH: "\<And>name tag v vo a n w w'. (name, tag, v) \<in> set todo \<Longrightarrow>
      run_encode buffer_Write vo a n v w = (None, v, w') \<Longrightarrow> linked_val n v \<Longrightarrow>
      \<exists>bs. w' = w @ bs \<and> (\<forall>r. run_decode vo True n (zero v) (bs @ r) = (None, v, r))"
    and enc: "fields_encode buffer_Write vo a done todo sf w = (None, done @ todo, w')"
    and lk: "linked_fields done todo sf"
    and inv: "\<And>x j. sf x = Some j \<Longrightarrow> j < length done"
  shows "\<exists>bs. w' = w @ bs \<and>
    (\<forall>r. fields_decode vo True done (map zero_field todo) sf (bs @ r) = (None, done @ todo, r))"
  using assms
proof (induction todo arbitrary: "done" sf w)
  case Nil
  then show ?case by simp
next
  case (Cons fld rest)
  obtain name tag v where fld: "fld = (name, tag, v)"
    by (cases fld)
  let ?pfs = "done @ (name, tag, v) # rest"
  let ?zfs = "done @ (name, tag, zero v) # map zero_field rest"
  obtain n sf' where fn: "field_node ?pfs sf (length done) name tag = (n, sf')"
    by (cases "field_node ?pfs sf (length done) name tag")
  obtain f1 v1 w1 where run: "run_encode buffer_Write vo a n v w = (f1, v1, w1)"
    by (cases "run_encode buffer_Write vo a n v w")
  have f1: "f1 = None"
    using Cons.prems(2) fld fn run by (cases f1) simp_all
  then have rest: "fields_encode buffer_Write vo a (done @ [(name, tag, v1)]) rest sf' w1 =
      (None, ?pfs, w')"
    using Cons.prems(2) fld fn run by simp
  from fields_encode_shape [OF rest] obtain todo' where
    "?pfs = (done @ [(name, tag, v1)]) @ todo'"
    by blast
  then have v1: "v1 = v"
    by simp
  from Cons.prems(3) fld fn have lk: "linked_val n v" "linked_fields (done @ [(name, tag, v)]) rest sf'"
    by simp_all
  from Cons.prems(1) [of name tag v vo a n w w1] fld run f1 v1 lk(1) obtain bs1 where
    bs1: "w1 = w @ bs1" "\<And>r. run_decode vo True n (zero v) (bs1 @ r) = (None, v, r)"
    by auto
  have inv': "j < length (done @ [(name, tag, v)])" if "sf' x = Some j" for x j
  proof -
    from that fn have "snd (field_node ?pfs sf (length done) name tag) x = Some j"
      by simp
    from sizeFroms_field_node [OF this] Cons.prems(4) [of x j] show ?thesis
      by auto
  qed
  have "\<exists>bs. w' = w1 @ bs \<and>
      (\<forall>r. fields_decode vo True (done @ [(name, tag, v)]) (map zero_field rest) sf' (bs @ r) =
        (None, (done @ [(name, tag, v)]) @ rest, r))"
  proof (rule Cons.IH)
    show "fields_encode buffer_Write vo a (done @ [(name, tag, v)]) rest sf' w1 =
        (None, (done @ [(name, tag, v)]) @ rest, w')"
      using rest v1 by simp
    show "linked_fields (done @ [(name, tag, v)]) rest sf'" by (rule lk)
    show "j < length (done @ [(name, tag, v)])" if "sf' x = Some j" for x j
      using that by (rule inv')
    show "\<exists>bs. w'' = w0 @ bs \<and> (\<forall>r. run_decode vo' True n' (zero v') (bs @ r) = (None, v', r))"
      if "(name', tag', v') \<in> set rest" "run_encode buffer_Write vo' a' n' v' w0 = (None, v', w'')"
        "linked_val n' v'"
      for name' tag' v' vo' a' n' w0 w''
      using Cons.prems(1) [of name' tag' v' vo' a' n' w0 w''] that by simp
  qed
  then obtain bs2 where bs2: "w' = w1 @ bs2"
    "\<And>r. fields_decode vo True (done @ [(name, tag, v)]) (map zero_field rest) sf' (bs2 @ r) =
        (None, ?pfs, r)"
    by auto
  have "node_val ?zfs j = node_val ?pfs j" if "sf name = Some j" for j
    using Cons.prems(4) [OF that] by (rule node_val_prefix)
  from field_node_rel [of sf name ?zfs ?pfs "length done" tag, OF this] fn obtain y where
    zn: "field_node ?zfs sf (length done) name tag = (n\<lparr>n_sizeof := y\<rparr>, sf')"
    by auto
  have dec: "fields_decode vo True done (map zero_field (fld # rest)) sf ((bs1 @ bs2) @ r) =
      (None, done @ fld # rest, r)" for r
    using zn bs1(2) [of "bs2 @ r"] bs2(2) [of r] fld
    by (simp add: zero_field_def decode_ignores_sizeof)
  have "w' = w @ (bs1 @ bs2)"
    using bs1(1) bs2(1) by simp
  with dec show ?case by blast
qed

lemma zero_VStruct: "zero (VStruct fs) = VStruct (map zero_field fs)"
  by (simp add: zero_field_def [abs_def])

lemma visit_leaf_rt:
  assumes "run_encode buffer_Write vo a n v w = (None, v, w')"
    and "linked_val n v"
    and "run_encode buffer_Write vo a n v w = encode_leaf buffer_Write vo a n v w"
    and "linked_val n v = linked_leaf n v"
    and "\<And>r. run_decode vo True n (zero v) r = decode_leaf vo True n (zero v) r"
  shows "\<exists>bs. w' = w @ bs \<and> (\<forall>r. run_decode vo True n (zero v) (bs @ r) = (None, v, r))"
  using leaf_rt [of vo a n v w w'] assms by simp

lemma run_rt:
  "run_encode buffer_Write vo a n v w = (None, v, w') \<Longrightarrow> linked_val n v \<Longrightarrow>
     \<exists>bs. w' = w @ bs \<and> (\<forall>r. run_decode vo True n (zero v) (bs @ r) = (None, v, r))"
proof (induction v arbitrary: vo a n w w')
  case (VArray es)
  obtain f2 es2 w2 where el: "elems_encode buffer_Write (resolve_order vo n) a es w = (f2, es2, w2)"
    by (cases "elems_encode buffer_Write (resolve_order vo n) a es w")
  with VArray.prems(1) have enc: "elems_encode buffer_Write (resolve_order vo n) a es w = (None, es, w')"
    by (simp add: encode_simps)
  from VArray.prems(2) have lk: "linked_elems es"
    by (simp add: linked_val.simps)
  have "\<exists>bs. w' = w @ bs \<and>
      (\<forall>r. elems_decode (resolve_order vo n) True (map zero es) (bs @ r) = (None, es, r))"
  proof (rule elems_rt [OF _ enc lk])
    show "\<exists>bs. w'' = w0 @ bs \<and> (\<forall>r. run_decode vo' True n' (zero e) (bs @ r) = (None, e, r))"
      if "e \<in> set es" "run_encode buffer_Write vo' a' n' e w0 = (None, e, w'')" "linked_val n' e"
      for e vo' a' n' w0 w''
      using VArray.IH [of e vo' a' n' w0 w''] that by simp
  qed
  then obtain bs where
    "w' = w @ bs" "\<And>r. elems_decode (resolve_order vo n) True (map zero es) (bs @ r) = (None, es, r)"
    by blast
  then show ?case
    by (intro exI [of _ bs]) (simp add: decode_simps)
next
  case (VSlice z es)
  obtain f2 es2 w2 where el: "elems_encode buffer_Write (resolve_order vo n) True es w = (f2, es2, w2)"
    by (cases "elems_encode buffer_Write (resolve_order vo n) True es w")
  with VSlice.prems(1) have enc: "elems_encode buffer_Write (resolve_order vo n) True es w = (None, es, w')"
    by (simp add: encode_simps)
  from VSlice.prems(2) obtain x where c: "count_of n = Some x" and len: "unat x = length es" "0 \<le> sint x"
    and ty: "map zero es = replicate (length es) z" and lk: "linked_elems es"
    by (auto simp add: linked_val.simps split: option.splits)
  from c obtain pv where pv: "n_sizeFrom n = Some pv" "Uint pv = Inr x"
    by (auto simp add: count_of_def split: option.splits sum.splits)
  have "\<exists>bs. w' = w @ bs \<and>
      (\<forall>r. elems_decode (resolve_order vo n) True (map zero es) (bs @ r) = (None, es, r))"
  proof (rule elems_rt [OF _ enc lk])
    show "\<exists>bs. w'' = w0 @ bs \<and> (\<forall>r. run_decode vo' True n' (zero e) (bs @ r) = (None, e, r))"
      if "e \<in> set es" "run_encode buffer_Write vo' a' n' e w0 = (None, e, w'')" "linked_val n' e"
      for e vo' a' n' w0 w''
      using VSlice.IH(2) [of e vo' a' n' w0 w''] that by simp
  qed
  then obtain bs where
    bs: "w' = w @ bs" "\<And>r. elems_decode (resolve_order vo n) True (map zero es) (bs @ r) = (None, es, r)"
    by blast
  have "run_decode vo True n (zero (VSlice z es)) (bs @ r) = (None, VSlice z es, r)" for r
    using pv len bs(2) [of r] ty
    by (simp add: decode_simps fresh_decode_replicate)
  with bs(1) show ?case by blast
next
  case (VStruct fs)
  obtain f2 fs2 w2 where fl: "fields_encode buffer_Write vo a [] fs Map.empty w = (f2, fs2, w2)"
    by (cases "fields_encode buffer_Write vo a [] fs Map.empty w")
  with VStruct.prems(1) have enc: "fields_encode buffer_Write vo a [] fs Map.empty w = (None, [] @ fs, w')"
    by (simp add: encode_simps)
  from VStruct.prems(2) have lk: "linked_fields [] fs Map.empty"
    by (simp add: linked_val.simps)
  have "\<exists>bs. w' = w @ bs \<and>
      (\<forall>r. fields_decode vo True [] (map zero_field fs) Map.empty (bs @ r) = (None, [] @ fs, r))"
  proof (rule fields_rt [OF _ enc lk])
    show "\<exists>bs. w'' = w0 @ bs \<and> (\<forall>r. run_decode vo' True n' (zero v') (bs @ r) = (None, v', r))"
      if "(name', tag', v') \<in> set fs" "run_encode buffer_Write vo' a' n' v' w0 = (None, v', w'')"
        "linked_val n' v'"
      for name' tag' v' vo' a' n' w0 w''
      using VStruct.IH [of "(name', tag', v')" "(tag', v')" v' vo' a' n' w0 w''] that by simp
  qed simp
  then obtain bs where
    "w' = w @ bs" "\<And>r. fields_decode vo True [] (map zero_field fs) Map.empty (bs @ r) = (None, fs, r)"
    by auto
  then show ?case
    by (intro exI [of _ bs]) (simp add: decode_simps zero_VStruct del: zero.simps)
next
  case (VPtr p)
  then show ?case by (simp add: linked_val.simps)
next
  case (VOpaque k l)
  then show ?case by (simp add: linked_val.simps)
qed (rule visit_leaf_rt; (assumption | simp add: encode_simps linked_val.simps decode_simps))+

lemma linked_run_encode:
  "linked_val n v \<Longrightarrow> run_encode wr vo a n' v w = switch_encode wr vo a n' v w"
  by (cases v) (simp_all add: linked_val.simps run_encode.simps)

lemma linked_run_decode:
  "linked_val n v \<Longrightarrow> run_decode vo a n' (zero v) r = switch_decode vo a n' (zero v) r"
  by (cases v) (simp_all add: linked_val.simps run_decode.simps)

section \<open>The encoder and the errors of the sink\<close>

text \<open>
  The failure the encoder returns, and the value it leaves, are the same for every sink
  and every state of the sink: nothing the sink reports reaches them.
\<close>

lemma elems_encode_sink:
  assumes IH: "\<And>e vo a n w w'. e \<in> set es \<Longrightarrow>
      \<exists>f v' w1 w2. run_encode wr vo a n e w = (f, v', w1) \<and> run_encode wr' vo a n e w' = (f, v', w2)"
  shows "\<exists>f es' w1 w2. elems_encode wr order a es w = (f, es', w1)
      \<and> elems_encode wr' order a es w' = (f, es', w2)"
  using assms
proof (induction es arbitrary: w w')
  case Nil
  show ?case by simp
next
  case (Cons e es)
  from Cons.prems [of e order a root_node w w'] obtain f v' w1 w2 where
    e: "run_encode wr order a root_node e w = (f, v', w1)"
       "run_encode wr' order a root_node e w' = (f, v', w2)"
    by auto
  have "\<exists>f es' w3 w4. elems_encode wr order a es w1 = (f, es', w3)
      \<and> elems_encode wr' order a es w2 = (f, es', w4)"
  proof (rule Cons.IH)
    show "\<exists>f v' w1 w2. run_encode wr vo a n e' w = (f, v', w1) \<and> run_encode wr' vo a n e' w' = (f, v', w2)"
      if "e' \<in> set es" for e' vo a n w w'
      using Cons.prems [of e' vo a n w w'] that by simp
  qed
  then obtain f2 es' w3 w4 where
    "elems_encode wr order a es w1 = (f2, es', w3)" "elems_encode wr' order a es w2 = (f2, es', w4)"
    by blast
  with e show ?case
    by (cases f) simp_all
qed

lemma fields_encode_sink:
  assumes IH: "\<And>name tag v vo a n w w'. (name, tag, v) \<in> set todo \<Longrightarrow>
      \<exists>f v' w1 w2. run_encode wr vo a n v w = (f, v', w1) \<and> run_encode wr' vo a n v w' = (f, v', w2)"
  shows "\<exists>f fs' w1 w2. fields_encode wr vo a done todo sf w = (f, fs', w1)
      \<and> fields_encode wr' vo a done todo sf w' = (f, fs', w2)"
  using assms
proof (induction todo arbitrary: "done" sf w w')
  case Nil
  show ?case by simp
next
  case (Cons fld rest)
  obtain name tag v where fld: "fld = (name, tag, v)"
    by (cases fld)
  obtain n sf' where fn:
    "field_node (done @ (name, tag, v) # rest) sf (length done) name tag = (n, sf')"
    by (cases "field_node (done @ (name, tag, v) # rest) sf (length done) name tag")
  from Cons.prems [of name tag v vo a n w w'] fld obtain f v' w1 w2 where
    e: "run_encode wr vo a n v w = (f, v', w1)" "run_encode wr' vo a n v w' = (f, v', w2)"
    by auto
  have "\<exists>f fs' w3 w4. fields_encode wr vo a (done @ [(name, tag, v')]) rest sf' w1 = (f, fs', w3)
      \<and> fields_encode wr' vo a (done @ [(name, tag, v')]) rest sf' w2 = (f, fs', w4)"
  proof (rule Cons.IH)
    show "\<exists>f v' w1 w2. run_encode wr vo a n v0 w = (f, v', w1) \<and> run_encode wr' vo a n v0 w' = (f, v', w2)"
      if "(name0, tag0, v0) \<in> set rest" for name0 tag0 v0 vo a n w w'
      using Cons.prems [of name0 tag0 v0 vo a n w w'] that by simp
  qed
  then obtain f2 fs' w3 w4 where
    "fields_encode wr vo a (done @ [(name, tag, v')]) rest sf' w1 = (f2, fs', w3)"
    "fields_encode wr' vo a (done @ [(name, tag, v')]) rest sf' w2 = (f2, fs', w4)"
    by blast
  with e fn fld show ?case
    by (cases f) simp_all
qed

lemma encode_leaf_sink:
  "\<exists>f v' w1 w2. encode_leaf wr vo a n v w = (f, v', w1) \<and> encode_leaf wr' vo a n v w' = (f, v', w2)"
  by (auto simp add: encode_leaf_def Let_def split: sum.split val.split option.split)

lemma run_encode_sink:
  "\<exists>f v' w1 w2. run_encode wr vo a n v w = (f, v', w1) \<and> run_encode wr' vo a n v w' = (f, v', w2)"
proof (induction v arbitrary: vo a n w w')
  case (VArray es)
  have "\<exists>f es' w1 w2. elems_encode wr (resolve_order vo n) a es w = (f, es', w1)
      \<and> elems_encode wr' (resolve_order vo n) a es w' = (f, es', w2)"
  proof (rule elems_encode_sink)
    show "\<exists>f v' w1 w2. run_encode wr vo a n e w = (f, v', w1) \<and> run_encode wr' vo a n e w' = (f, v', w2)"
      if "e \<in> set es" for e vo a n w w'
      using VArray [of e vo a n w w'] that by simp
  qed
  then show ?case
    by (auto simp add: encode_simps)
next
  case (VSlice z es)
  have "\<exists>f es' w1 w2. elems_encode wr (resolve_order vo n) True es w = (f, es', w1)
      \<and> elems_encode wr' (resolve_order vo n) True es w' = (f, es', w2)"
  proof (rule elems_encode_sink)
    show "\<exists>f v' w1 w2. run_encode wr vo a n e w = (f, v', w1) \<and> run_encode wr' vo a n e w' = (f, v', w2)"
      if "e \<in> set es" for e vo a n w w'
      using VSlice(2) [of e vo a n w w'] that by simp
  qed
  then show ?case
    by (auto simp add: encode_simps)
next
  case (VStruct fs)
  have "\<exists>f fs' w1 w2. fields_encode wr vo a [] fs Map.empty w = (f, fs', w1)
      \<and> fields_encode wr' vo a [] fs Map.empty w' = (f, fs', w2)"
  proof (rule fields_encode_sink)
    show "\<exists>f v' w1 w2. run_encode wr vo a n v w = (f, v', w1) \<and> run_encode wr' vo a n v w' = (f, v', w2)"
      if "(name, tag, v) \<in> set fs" for name tag v vo a n w w'
      using VStruct [of "(name, tag, v)" "(tag, v)" v vo a n w w'] that by simp
  qed
  then show ?case
    by (auto simp add: encode_simps)
next
  case (VPtr p)
  show ?case
  proof (cases p)
    case None
    then show ?thesis by (simp add: encode_simps)
  next
    case (Some v1)
    have sw: "(switch_encode wr vo True n v1 w = run_encode wr vo True n v1 w
          \<and> switch_encode wr' vo True n v1 w' = run_encode wr' vo True n v1 w')
        \<or> (\<exists>q. v1 = VPtr q)"
      by (cases v1) (simp_all add: run_encode.simps)
    show ?thesis
    proof (cases "\<exists>q. v1 = VPtr q")
      case True
      with Some show ?thesis by (auto simp add: encode_simps)
    next
      case False
      with sw have eq: "switch_encode wr vo True n v1 w = run_encode wr vo True n v1 w"
        "switch_encode wr' vo True n v1 w' = run_encode wr' vo True n v1 w'"
        by blast+
      from VPtr [of v1 vo True n w w'] Some obtain f v' w1 w2 where
        r: "run_encode wr vo True n v1 w = (f, v', w1)" "run_encode wr' vo True n v1 w' = (f, v', w2)"
        by auto
      have "run_encode wr vo a n (VPtr p) w = (f, VPtr (Some v'), w1)"
        unfolding Some by (subst run_encode.simps) (simp add: eq r)
      moreover have "run_encode wr' vo a n (VPtr p) w' = (f, VPtr (Some v'), w2)"
        unfolding Some by (subst run_encode.simps) (simp add: eq r)
      ultimately show ?thesis by blast
    qed
  qed
qed (use encode_leaf_sink in \<open>simp_all add: encode_simps\<close>)

lemma Encode_sink:
  "fst (Encode wr w v) = fst (Encode buffer_Write [] v)"
  using run_encode_sink [of wr LittleEndian False root_node v w buffer_Write "[]"]
  by (auto simp add: Encode_def encode_def)

section \<open>Cases next to the ones the claims fail on\<close>

text \<open>
  A byte-order directive on an integer field, and on an array field, is honoured; a
  32-bit field tagged \<open>sizeof=\<close> is overwritten with the length; a string field with no tag
  and no length field registered under its name makes the decoder panic, whatever the
  source holds.
\<close>

lemma directive_on_integer_field:
  "Encode buffer_Write [] (VPtr (Some (VStruct [(''U32'', ''big'', VUint32 0x11223344)]))) =
     (None, VPtr (Some (VStruct [(''U32'', ''big'', VUint32 0x11223344)])), [0x11, 0x22, 0x33, 0x44])"
  by code_simp

lemma directive_on_array_field:
  "Encode buffer_Write [] (VPtr (Some (VStruct [(''A'', ''big'', VArray [VUint16 0x1122])]))) =
     (None, VPtr (Some (VStruct [(''A'', ''big'', VArray [VUint16 0x1122])])), [0x11, 0x22])"
  by code_simp

lemma uint32_count_overwritten:
  "Encode buffer_Write []
     (VPtr (Some (VStruct [(''Count'', ''sizeof=Items'', VUint32 0),
        (''Items'', '''', VSlice (VUint8 0) [VUint8 1, VUint8 2, VUint8 3])]))) =
     (None,
      VPtr (Some (VStruct [(''Count'', ''sizeof=Items'', VUint32 3),
        (''Items'', '''', VSlice (VUint8 0) [VUint8 1, VUint8 2, VUint8 3])])),
      [3, 0, 0, 0, 1, 2, 3])"
  by code_simp

lemma string_without_size_source:
  assumes "sf name = None" and "FindAll tag = []"
  shows "fields_decode vorder a done ((name, tag, VString s) # rest) sf r =
     (Some (Panic NilPointerDereference), done @ (name, tag, VString s) # rest, r)"
  using assms by (simp add: field_node_def root_node_def decode_simps decode_leaf_def)

section \<open>What the visitors do with the kinds they do not write\<close>

lemma run_sizeof_unsupported:
  assumes "Kind v = KBool \<or> Kind v = KInt \<or> Kind v = KUint \<or> Kind v = KUintptr"
  shows "run_sizeof n v sz = Inl (unsupported (Kind v))"
  using assms by (cases v) (simp_all add: sizeof_leaf_def)

lemma run_encode_unsupported:
  assumes "Kind v = KBool \<or> Kind v = KInt \<or> Kind v = KUint \<or> Kind v = KUintptr"
  shows "run_encode wr vorder a n v w = (Some (unsupported (Kind v)), v, w)"
  using assms
  by (cases v) (simp_all add: encode_simps encode_leaf_def set_sizeof_def split: option.split)

lemma run_decode_unsupported:
  assumes "Kind v = KBool \<or> Kind v = KInt \<or> Kind v = KUint \<or> Kind v = KUintptr"
  shows "run_decode vorder a n v r = (Some (unsupported (Kind v)), v, r)"
  using assms by (cases v) (simp_all add: decode_simps decode_leaf_def)

section \<open>The claims\<close>

text \<open>
  C1, as the specification states it, at its own input: the output would be
  \<open>01 00 02 61 62 78 00\<close>, 9 bytes long, and \<open>Sizeof\<close> would return 9.  This fails: those are
  7 bytes, the encoder writes 7 bytes, and \<open>Sizeof\<close> returns 7.
\<close>

theorem C1_counterexample:
  "\<not> (snd (snd (Encode buffer_Write [] (VPtr (Some (Example 0))))) = [1, 0, 2, 0x61, 0x62, 0x78, 0]
      \<and> length (snd (snd (Encode buffer_Write [] (VPtr (Some (Example 0)))))) = 9
      \<and> fst (Sizeof (VPtr (Some (Example 0)))) = 9)"
  by code_simp

text \<open>
  C1, amended: for the struct \<open>{Cmd uint8; Len uint16 `sizeof=Name,big`; Name string;
  Flag string `nullterm`}\<close> with \<open>Cmd = 1\<close>, \<open>Name = "ab"\<close>, \<open>Flag = "x"\<close>, encoding with the
  little-endian default writes 7 bytes: \<open>01\<close>, the two bytes of \<open>Len\<close> as encoding leaves it in
  memory, high byte first (the \<open>big\<close> override), then \<open>61 62 78 00\<close>; \<open>Sizeof\<close> of the same
  value returns 7.  Nothing else of the value changes.
\<close>

theorem C1_example_encoding:
  "\<exists>l'. Encode buffer_Write [] (VPtr (Some (Example l))) =
          (None, VPtr (Some (Example l')), [1] @ PutUint16 BigEndian l' @ [0x61, 0x62, 0x78, 0])
        \<and> length ([1] @ PutUint16 BigEndian l' @ [0x61, 0x62, 0x78, 0 :: byte]) = 7
        \<and> Sizeof (VPtr (Some (Example l))) = (7, None)"
proof -
  have enc: "Encode buffer_Write [] (VPtr (Some (Example l))) =
      (None, VPtr (Some (Example l)), [1] @ PutUint16 BigEndian l @ [0x61, 0x62, 0x78, 0])"
    by (simp add: Encode_def encode_def encode_simps Example_def field_node_def root_node_def
        hasPrefix_def isWord_def encode_leaf_def set_sizeof_def resolve_order_def Write_def
        buffer_Write_def narrow_widen)
  have len: "length ([1] @ PutUint16 BigEndian l @ [0x61, 0x62, 0x78, 0 :: byte]) = 7"
    by (simp add: PutUint16_def)
  have sz: "Sizeof (VPtr (Some (Example l))) = (7, None)"
    by (simp add: Sizeof_def sizeof_def Example_def field_node_def root_node_def hasPrefix_def
        isWord_def sizeof_leaf_def)
  from enc len sz show ?thesis by blast
qed

text \<open>
  C2 says that \<open>Sizeof\<close> returns the number of bytes \<open>Encode\<close> writes whenever both succeed.
  For an array or slice whose elements are not structs, \<open>sizeofVisitor.visit\<close> measures the
  first element and multiplies (the source marks this with ``TODO: this is wrong''): for
  \<open>struct { A [2]string }\<close> holding \<open>"a"\<close> and \<open>"bcd"\<close> both calls succeed, \<open>Sizeof\<close> returns 2
  and \<open>Encode\<close> writes 4 bytes.
\<close>

theorem C2_sizeof_of_unequal_elements:
  "Sizeof (VPtr (Some Strings)) = (2, None)
   \<and> Encode buffer_Write [] (VPtr (Some Strings)) =
       (None, VPtr (Some Strings), [0x61, 0x62, 0x63, 0x64])"
  by code_simp

text \<open>
  C3, as the specification states it, at \<open>struct { Items []uint8 }\<close> (a value with no
  length field at all) holding \<open>1, 2\<close>: encoding writes \<open>01 02\<close> and changes nothing, and
  decoding these bytes into a fresh value of the type fails.
\<close>

theorem C3_counterexample:
  "Encode buffer_Write [] (VPtr (Some (Items [VUint8 1, VUint8 2]))) =
     (None, VPtr (Some (Items [VUint8 1, VUint8 2])), [1, 2])
   \<and> zero (Items [VUint8 1, VUint8 2]) = Items []
   \<and> Decode [1, 2] (VPtr (Some (Items []))) =
       (Some (Err (New ''wire: slice with no size source'')), VPtr (Some (Items [])), [1, 2])"
  by code_simp

text \<open>
  C3, amended: let \<open>v\<close> be a linked value (built from fixed-width integers, strings, arrays,
  slices and structs; every slice and every string without \<open>nullterm\<close> has, under its name,
  a length field of an unsigned kind declared before it in the same struct that holds its
  length; no string tagged \<open>nullterm\<close> holds a zero byte) that encoding leaves as it is (its
  length fields already hold the lengths).  Then decoding the bytes that encoding \<open>v\<close>
  wrote, with the same default byte order, into a fresh value of the type of \<open>v\<close> succeeds,
  yields \<open>v\<close>, and reads exactly those bytes.
\<close>

theorem C3_round_trip:
  assumes "linked_val root_node v"
    and "EncodeWithOrder buffer_Write [] (VPtr (Some v)) order = (None, VPtr (Some v), bs)"
  shows "DecodeWithOrder bs (VPtr (Some (zero v))) order = (None, VPtr (Some v), [])"
proof -
  obtain f1 v1 w1 where sw: "switch_encode buffer_Write order True root_node v [] = (f1, v1, w1)"
    by (cases "switch_encode buffer_Write order True root_node v []")
  with assms(2) have "switch_encode buffer_Write order True root_node v [] = (None, v, bs)"
    by (simp add: EncodeWithOrder_def encode_def run_encode.simps)
  then have "run_encode buffer_Write order True root_node v [] = (None, v, bs)"
    by (simp only: linked_run_encode [OF assms(1)])
  from run_rt [OF this assms(1)]
  have "\<forall>r. run_decode order True root_node (zero v) (bs @ r) = (None, v, r)"
    by simp
  then have "run_decode order True root_node (zero v) (bs @ []) = (None, v, [])"
    by (rule spec)
  then have "run_decode order True root_node (zero v) bs = (None, v, [])"
    by simp
  then have "switch_decode order True root_node (zero v) bs = (None, v, [])"
    by (simp only: linked_run_decode [OF assms(1)])
  then show ?thesis
    by (simp add: DecodeWithOrder_def decode_def run_decode.simps)
qed

text \<open>
  C3, amended, at \<open>refStruct\<close> of the package's tests as \<open>TestEncode\<close> leaves it
  (\<open>TF = 2\<close>, \<open>SS = 5\<close>), with the big-endian default of the tests.
\<close>

theorem C3_witness:
  "linked_val root_node (refStruct 2 5)
   \<and> EncodeWithOrder buffer_Write [] (VPtr (Some (refStruct 2 5))) BigEndian =
       (None, VPtr (Some (refStruct 2 5)), refBytes)
   \<and> DecodeWithOrder refBytes (VPtr (Some (zero (refStruct 2 5)))) BigEndian =
       (None, VPtr (Some (refStruct 2 5)), [])"
proof -
  have a: "linked_val root_node (refStruct 2 5)"
    by code_simp
  have b: "EncodeWithOrder buffer_Write [] (VPtr (Some (refStruct 2 5))) BigEndian =
      (None, VPtr (Some (refStruct 2 5)), refBytes)"
    by code_simp
  from C3_round_trip [OF a b] a b show ?thesis
    by simp
qed

text \<open>
  C4 says that encoding overwrites every integer field tagged \<open>sizeof=X\<close> with the length of
  \<open>X\<close> and writes that, a 2-byte count holding 0 next to three items being written as 3.
  The switch that overwrites has no case for \<open>Int16\<close> and \<open>Uint16\<close>: the count stays 0 in
  memory and \<open>00 00\<close> is written.
\<close>

theorem C4_uint16_count_not_overwritten:
  "Encode buffer_Write [] (VPtr (Some (Counted 0))) =
     (None, VPtr (Some (Counted 0)), [0, 0, 1, 2, 3])"
  by code_simp

text \<open>
  C5 says that a write failure of the sink aborts the encoding and is returned.  The
  encoder drops the results of every write: with a sink that fails on each \<open>Write\<close>,
  \<open>Encode\<close> returns no error.
\<close>

theorem C5_write_failure_dropped:
  "closed_Write [] [1] = ([], Some ErrClosedPipe)
   \<and> Encode closed_Write [] (VPtr (Some (Items [VUint8 1]))) =
       (None, VPtr (Some (Items [VUint8 1])), [])"
  by code_simp

text \<open>
  C6: when the traversal comes to a slice field for whose name no length field is
  registered, decoding fails with the error ``wire: slice with no size source'', the
  fields stay as they are and the source keeps every byte it had at that moment.  The
  same holds for a slice that is not a field (an element, or the value passed in).
\<close>

theorem C6_slice_without_size_source:
  assumes "sf name = None"
  shows "fields_decode vorder a done ((name, tag, VSlice z es) # rest) sf r =
           (Some (Err (New ''wire: slice with no size source'')),
            done @ (name, tag, VSlice z es) # rest, r)
         \<and> run_decode vorder a root_node (VSlice z es) r =
           (Some (Err (New ''wire: slice with no size source'')), VSlice z es, r)"
proof -
  obtain n sf' where fn:
    "field_node (done @ (name, tag, VSlice z es) # rest) sf (length done) name tag = (n, sf')"
    by (cases "field_node (done @ (name, tag, VSlice z es) # rest) sf (length done) name tag")
  have "n_sizeFrom n = None"
    using sizeFrom_field_node [of sf name "done @ (name, tag, VSlice z es) # rest" "length done" tag]
      assms fn
    by simp
  then have "run_decode vorder a n (VSlice z es) r = (Some no_size_source, VSlice z es, r)"
    by (simp add: decode_simps)
  with fn show ?thesis
    by (simp add: decode_simps no_size_source_def root_node_def)
qed

text \<open>C6 at \<open>struct { Items []uint8 }\<close> and the source \<open>01 02\<close>.\<close>

theorem C6_witness:
  "(Map.empty :: sizeFroms) ''Items'' = None
   \<and> fields_decode LittleEndian True [] [(''Items'', '''', VSlice (VUint8 0) [])] Map.empty [1, 2] =
       (Some (Err (New ''wire: slice with no size source'')),
        [(''Items'', '''', VSlice (VUint8 0) [])], [1, 2])"
  using C6_slice_without_size_source
    [of Map.empty "''Items''" LittleEndian True "[]" "''''" "VUint8 0" "[]" "[]" "[1, 2]"]
  by simp

text \<open>
  C7 says that decoding a string field that is neither null-terminated nor linked to a
  length field returns an error.  \<open>decodeVisitor.visit\<close> checks \<open>n.sizeFrom == nil\<close> for a
  slice but not for a string: it evaluates \<open>n.sizeFrom.val\<close> and panics.
\<close>

theorem C7_string_without_size_source_panics:
  "Decode [0x61, 0x62] (VPtr (Some Named)) =
     (Some (Panic NilPointerDereference), VPtr (Some Named), [0x61, 0x62])"
  by code_simp

text \<open>
  C8 says that a byte-order directive on a field holds for the field and all its
  descendants.  For a field of struct type the node's \<open>endianness\<close> is set but never read:
  the fields inside are written in the order of the call.  With \<open>In innerStruct `wire:"big"`\<close>
  and the little-endian default, \<open>U32 = 0x11223344\<close> is written as \<open>44 33 22 11\<close>.
\<close>

theorem C8_directive_on_struct_field_ignored:
  "Encode buffer_Write [] (VPtr (Some Outer)) =
     (None, VPtr (Some Outer), [0x44, 0x33, 0x22, 0x11])"
  by code_simp

text \<open>
  C9: a value of kind bool, int, uint or uintptr makes each of the three traversals
  fail, where it is reached, with the error ``wire: unsupported type: '' followed by the
  name of the kind: as the value the node holds (whatever the node's tags and links), as
  the field the loop over a struct has come to, and as the value passed to \<open>Sizeof\<close>,
  \<open>Encode\<close> or \<open>Decode\<close>.  Nothing is written, read or stored.
\<close>

theorem C9_unsupported_kinds:
  assumes "Kind v = KBool \<or> Kind v = KInt \<or> Kind v = KUint \<or> Kind v = KUintptr"
  shows "unsupported (Kind v) = Err (New (''wire: unsupported type: '' @ Kind_String (Kind v)))
    \<and> run_sizeof n v sz = Inl (unsupported (Kind v))
    \<and> run_encode wr vorder a n v w = (Some (unsupported (Kind v)), v, w)
    \<and> run_decode vorder a n v r = (Some (unsupported (Kind v)), v, r)
    \<and> fields_sizeof done ((name, tag, v) # rest) sf sz = Inl (unsupported (Kind v))
    \<and> fields_encode wr vorder a done ((name, tag, v) # rest) sf w =
        (Some (unsupported (Kind v)), done @ (name, tag, v) # rest, w)
    \<and> fields_decode vorder a done ((name, tag, v) # rest) sf r =
        (Some (unsupported (Kind v)), done @ (name, tag, v) # rest, r)
    \<and> Sizeof v = (- 1, Some (unsupported (Kind v)))
    \<and> Encode wr w v = (Some (unsupported (Kind v)), v, w)
    \<and> Decode r v = (Some (unsupported (Kind v)), v, r)"
proof -
  note s = run_sizeof_unsupported [OF assms]
  note e = run_encode_unsupported [OF assms]
  note d = run_decode_unsupported [OF assms]
  obtain n' sf' where fn:
    "field_node (done @ (name, tag, v) # rest) sf (length done) name tag = (n', sf')"
    by (cases "field_node (done @ (name, tag, v) # rest) sf (length done) name tag")
  have fs: "fields_sizeof done ((name, tag, v) # rest) sf sz = Inl (unsupported (Kind v))"
    using fn s [of n' sz] by simp
  have fe: "fields_encode wr vorder a done ((name, tag, v) # rest) sf w =
      (Some (unsupported (Kind v)), done @ (name, tag, v) # rest, w)"
    using fn e [of wr vorder a n' w] by simp
  have fd: "fields_decode vorder a done ((name, tag, v) # rest) sf r =
      (Some (unsupported (Kind v)), done @ (name, tag, v) # rest, r)"
    using fn d [of vorder a n' r] by simp
  have ps: "Sizeof v = (- 1, Some (unsupported (Kind v)))"
    using s [of root_node 0] by (simp add: Sizeof_def sizeof_def)
  have pe: "Encode wr w v = (Some (unsupported (Kind v)), v, w)"
    using e [of wr LittleEndian False root_node w] by (simp add: Encode_def encode_def)
  have pd: "Decode r v = (Some (unsupported (Kind v)), v, r)"
    using d [of LittleEndian False root_node r] by (simp add: Decode_def decode_def)
  show ?thesis
    using s [of n sz] e [of wr vorder a n w] d [of vorder a n r] fs fe fd ps pe pd
    by (simp add: unsupported_def)
qed

text \<open>C9 at the value \<open>true\<close>, the empty sink and the source \<open>01\<close>.\<close>

theorem C9_witness:
  "(Kind (VBool True) = KBool \<or> Kind (VBool True) = KInt \<or> Kind (VBool True) = KUint
      \<or> Kind (VBool True) = KUintptr)
   \<and> Sizeof (VBool True) = (- 1, Some (Err (New ''wire: unsupported type: bool'')))
   \<and> Encode buffer_Write [] (VBool True) =
       (Some (Err (New ''wire: unsupported type: bool'')), VBool True, [])
   \<and> Decode [1] (VBool True) =
       (Some (Err (New ''wire: unsupported type: bool'')), VBool True, [1])"
  using C9_unsupported_kinds [of "VBool True" root_node 0 buffer_Write LittleEndian False "[]"
      "[1]" "[]" "''B''" "''''" "[]" Map.empty]
  by (simp add: unsupported_def)

text \<open>
  C10 says that decoding a slice whose length field is a signed integer does not crash.
  The encoder accepts such a field (its \<open>SetInt\<close> branch) and writes the count; the
  decoder reads the count with \<open>Value.Uint\<close>, which panics on an \<open>int8\<close>.
\<close>

theorem C10_signed_length_field_panics:
  "Encode buffer_Write [] (VPtr (Some (Signed 0 [VUint8 1, VUint8 2]))) =
     (None, VPtr (Some (Signed 2 [VUint8 1, VUint8 2])), [2, 1, 2])
   \<and> Decode [2, 1, 2] (VPtr (Some (Signed 0 []))) =
       (Some (Panic (ValueError ''reflect.Value.Uint'' KInt8)), VPtr (Some (Signed 2 [])), [1, 2])"
  by code_simp

end
